theory Spec2Isabelle
  imports Main "HOL-Library.Word"
begin

section \<open>The RPC client of client/client.go\<close>

subsection \<open>Values of the program\<close>

text \<open>
  Sequence numbers are Go \<^verbatim>\<open>uint64\<close> values: addition wraps around. A \<^verbatim>\<open>*Call\<close> is the
  address of a Call object in the store, a \<^verbatim>\<open>chan *Call\<close> is the identity of a channel
  object; a nil pointer, a nil channel and a nil \<^verbatim>\<open>error\<close> are \<open>None\<close>.
\<close>

type_synonym seqno = "64 word"
type_synonym addr = nat
type_synonym chan = nat

text \<open>
  The \<^verbatim>\<open>error\<close> values the client handles: the package variable \<^verbatim>\<open>ErrShutdown\<close>, the results
  of \<^verbatim>\<open>errors.New(s)\<close> and of \<^verbatim>\<open>fmt.Errorf(f)\<close> (called without operands; the format string
  is kept as it is), and the errors that the codec hands back, known by their text.
\<close>

datatype error = ErrShutdown | ErrorsNew string | FmtErrorf string | CodecError string

text \<open>The method \<^verbatim>\<open>err.Error()\<close>.\<close>

fun error_text :: "error \<Rightarrow> string" where
  "error_text ErrShutdown = ''connection has been shut down''"
| "error_text (ErrorsNew s) = s"
| "error_text (FmtErrorf f) = f"
| "error_text (CodecError s) = s"

text \<open>
  \<^verbatim>\<open>type Call struct\<close>. \<open>Args\<close> is the request body. \<open>Reply\<close> is the target that a response
  body is decoded into: \<open>None\<close> is a nil target, \<open>Some v\<close> a target that currently holds \<open>v\<close>.
\<close>

record 'v Call =
  Seq :: seqno
  Service :: string
  Method :: string
  Args :: 'v
  Reply :: "'v option"
  Error :: "error option"
  Done :: "chan option"

text \<open>
  A buffered Go channel of \<^verbatim>\<open>*Call\<close>: its capacity and the calls that were sent and not yet
  received, oldest first.
\<close>

record channel =
  cap :: nat
  buf :: "addr list"

subsection \<open>The codec\<close>

text \<open>
  Modelled from the spec: the codec contract and the header record of package
  \<^verbatim>\<open>myGoRPC/codec\<close>, which client.go imports and which is not part of the sources. The spec
  gives the header the fields service, method, sequence and error (empty on success) and
  the codec the operations write (header and body), read header, read body into a target
  or into nil (which consumes and discards the body), and close, each returning an error
  or nil. The model is a scripted codec: what the peer sends and how each operation ends
  is data of the codec, so that a theorem about every codec state is a theorem about every
  behaviour of the connection.
\<close>

record Header =
  h_Service :: string
  h_Method :: string
  h_Seq :: seqno
  h_Error :: string

text \<open>
  One response on the wire: its header, the result of reading its body into nil, and the
  result of reading its body into a target (an error, or the decoded value).
\<close>

record 'v frame =
  f_header :: Header
  f_discard :: "error option"
  f_decode :: "error + 'v"

record 'v codec =
  incoming :: "'v frame list"
  read_err :: error
  write_results :: "error option list"
  written :: "(Header \<times> 'v) list"
  close_result :: "error option"
  close_calls :: nat

text \<open>
  \<^verbatim>\<open>Write(&header, body)\<close>: the request is logged and the next scripted result is returned
  (nil once the script is used up).
\<close>

definition cc_Write :: "Header \<Rightarrow> 'v \<Rightarrow> 'v codec \<Rightarrow> error option \<times> 'v codec" where
  "cc_Write h body c =
     (case write_results c of
        [] \<Rightarrow> (None, c\<lparr>written := written c @ [(h, body)]\<rparr>)
      | r # rs \<Rightarrow> (r, c\<lparr>write_results := rs, written := written c @ [(h, body)]\<rparr>))"

text \<open>
  \<^verbatim>\<open>ReadHeader(&header)\<close>: the next frame, which leaves the stream, or the read error of the
  stream when no frame is left.
\<close>

definition cc_ReadHeader :: "'v codec \<Rightarrow> (error + 'v frame) \<times> 'v codec" where
  "cc_ReadHeader c =
     (case incoming c of
        [] \<Rightarrow> (Inl (read_err c), c)
      | f # fs \<Rightarrow> (Inr f, c\<lparr>incoming := fs\<rparr>))"

text \<open>
  \<^verbatim>\<open>ReadBody(target)\<close> for the frame whose header was read last: the new content of the
  target and the error. A nil target discards the body.
\<close>

definition cc_ReadBody :: "'v frame \<Rightarrow> 'v option \<Rightarrow> 'v option \<times> error option" where
  "cc_ReadBody f target =
     (case target of
        None \<Rightarrow> (None, f_discard f)
      | Some old \<Rightarrow>
          (case f_decode f of
             Inl e \<Rightarrow> (Some old, Some e)
           | Inr v \<Rightarrow> (Some v, None)))"

definition cc_Close :: "'v codec \<Rightarrow> error option \<times> 'v codec" where
  "cc_Close c = (close_result c, c\<lparr>close_calls := close_calls c + 1\<rparr>)"

subsection \<open>The client and the store\<close>

text \<open>
  The fields \<open>cc\<close>, \<open>header\<close>, \<open>seq\<close>, \<open>pending\<close>, \<open>closing\<close> and \<open>shutdown\<close> are
  \<^verbatim>\<open>type Client struct\<close> (its \<^verbatim>\<open>option\<close> is copied at construction and never read again; the
  two mutexes are always free when one goroutine runs alone, and are state of the
  concurrent model below). \<open>calls\<close> and \<open>chans\<close> are the store: the Call objects and the
  channels that the pointers of the program refer to. \<open>next_call\<close> and \<open>next_chan\<close> are the
  addresses that the next allocations return.
\<close>

record 'v state =
  cc :: "'v codec"
  header :: Header
  seq :: seqno
  pending :: "seqno \<rightharpoonup> addr"
  closing :: bool
  shutdown :: bool
  calls :: "addr \<Rightarrow> 'v Call"
  chans :: "chan \<Rightarrow> channel"
  next_call :: addr
  next_chan :: chan

text \<open>\<^verbatim>\<open>call.Error = e\<close> through the pointer \<open>a\<close>.\<close>

definition set_Error :: "addr \<Rightarrow> error option \<Rightarrow> 'v state \<Rightarrow> 'v state" where
  "set_Error a e st = st\<lparr>calls := (calls st)(a := (calls st a)\<lparr>Error := e\<rparr>)\<rparr>"

text \<open>
  \<^verbatim>\<open>func (call *Call) done()\<close> (\<open>done\<close> is a keyword of Isabelle): \<^verbatim>\<open>call.Done <- call\<close>.
  The send goes through when the buffer
  has a free slot. \<open>None\<close> is the goroutine blocked in the send: on a full buffer (a
  channel of capacity 0 is always full) or on a nil channel.
\<close>

definition call_done :: "addr \<Rightarrow> 'v state \<Rightarrow> 'v state option" where
  "call_done a st =
     (case Done (calls st a) of
        None \<Rightarrow> None
      | Some ch \<Rightarrow>
          if length (buf (chans st ch)) < cap (chans st ch)
          then Some (st\<lparr>chans := (chans st)(ch := (chans st ch)\<lparr>buf := buf (chans st ch) @ [a]\<rparr>)\<rparr>)
          else None)"

text \<open>\<^verbatim>\<open>var ErrShutdown\<close> is the constructor of the same name.\<close>

text \<open>\<^verbatim>\<open>func (client *Client) Close() error\<close>\<close>

definition Close :: "'v state \<Rightarrow> error option \<times> 'v state" where
  "Close st =
     (if closing st then (Some ErrShutdown, st)
      else (case cc_Close (cc st) of (r, c) \<Rightarrow> (r, st\<lparr>closing := True, cc := c\<rparr>)))"

text \<open>\<^verbatim>\<open>func (client *Client) IsAvailable() bool\<close>\<close>

definition IsAvailable :: "'v state \<Rightarrow> bool" where
  "IsAvailable st = (\<not> shutdown st \<and> \<not> closing st)"

text \<open>\<^verbatim>\<open>func (client *Client) registerCall(call *Call) (seq uint64, err error)\<close>\<close>

definition registerCall :: "addr \<Rightarrow> 'v state \<Rightarrow> (error + seqno) \<times> 'v state" where
  "registerCall a st =
     (if closing st \<or> shutdown st then (Inl ErrShutdown, st)
      else (Inr (seq st),
            st\<lparr>calls := (calls st)(a := (calls st a)\<lparr>Seq := seq st\<rparr>),
               pending := (pending st)(seq st \<mapsto> a),
               seq := seq st + 1\<rparr>))"

text \<open>
  \<^verbatim>\<open>func (client *Client) removeCall(seq uint64) *Call\<close>: reading a missing key of a Go map
  gives the zero value, here the nil pointer, and deleting a missing key does nothing.
\<close>

definition removeCall :: "seqno \<Rightarrow> 'v state \<Rightarrow> addr option \<times> 'v state" where
  "removeCall s st = (pending st s, st\<lparr>pending := (pending st)(s := None)\<rparr>)"

text \<open>
  \<^verbatim>\<open>func (client *Client) terminateCalls(err error)\<close>. Go leaves the order in which
  \<^verbatim>\<open>range\<close> visits a map open, so the order is an argument: \<open>terminate_range\<close> is the loop
  over the keys in the order given, and \<open>terminateCalls order\<close> is the function for a
  \<open>range\<close> that visits the keys as \<open>order\<close> lists them. It is the source's function when
  \<open>order\<close> lists every key of \<open>pending\<close> once (\<open>range_order\<close>). The result is \<open>None\<close> when a
  \<^verbatim>\<open>call.done()\<close> of the loop blocks.
\<close>

definition range_order :: "seqno list \<Rightarrow> 'v state \<Rightarrow> bool" where
  "range_order order st = (distinct order \<and> set order = dom (pending st))"

fun terminate_range :: "error option \<Rightarrow> seqno list \<Rightarrow> 'v state \<Rightarrow> 'v state option" where
  "terminate_range err [] st = Some st"
| "terminate_range err (k # ks) st =
     (case pending st k of
        None \<Rightarrow> terminate_range err ks st
      | Some a \<Rightarrow>
          (case call_done a (set_Error a err st) of
             None \<Rightarrow> None
           | Some st' \<Rightarrow> terminate_range err ks st'))"

definition terminateCalls :: "seqno list \<Rightarrow> error option \<Rightarrow> 'v state \<Rightarrow> 'v state option" where
  "terminateCalls order err st = terminate_range err order (st\<lparr>shutdown := True\<rparr>)"

text \<open>
  \<^verbatim>\<open>func newClientCodec(cc codec.Codec, opt *server.Option) *Client\<close>: a client with the codec
  given, \<^verbatim>\<open>seq: 1\<close>, an empty \<open>pending\<close> and zero values elsewhere. The argument \<open>st\<close> gives the
  store the client is created in. The goroutine started by \<^verbatim>\<open>go client.receive()\<close> is
  \<open>receive\<close> below.
\<close>

definition newClientCodec :: "'v codec \<Rightarrow> 'v state \<Rightarrow> 'v state" where
  "newClientCodec c st =
     st\<lparr>cc := c,
        header := \<lparr>h_Service = [], h_Method = [], h_Seq = 0, h_Error = []\<rparr>,
        seq := 1,
        pending := Map.empty,
        closing := False,
        shutdown := False\<rparr>"

subsection \<open>Receiving\<close>

text \<open>
  One iteration of the loop of \<^verbatim>\<open>receive\<close>, after \<^verbatim>\<open>ReadHeader\<close> returned the header of frame
  \<open>f\<close>: \<^verbatim>\<open>removeCall\<close>, then the \<^verbatim>\<open>switch\<close>. The result is the value of \<^verbatim>\<open>err\<close> at the end of
  the iteration and the state, or \<open>None\<close> when \<^verbatim>\<open>call.done()\<close> blocks.
\<close>

definition receive_body :: "'v frame \<Rightarrow> 'v state \<Rightarrow> (error option \<times> 'v state) option" where
  "receive_body f st =
     (case removeCall (h_Seq (f_header f)) st of
        (None, st1) \<Rightarrow> Some (snd (cc_ReadBody f None), st1)
      | (Some a, st1) \<Rightarrow>
          if h_Error (f_header f) \<noteq> []
          then (let st2 = set_Error a (Some (FmtErrorf (h_Error (f_header f)))) st1;
                    err = snd (cc_ReadBody f None)
                in map_option (Pair err) (call_done a st2))
          else (case cc_ReadBody f (Reply (calls st1 a)) of
                  (target, err) \<Rightarrow>
                    (let st2 = st1\<lparr>calls := (calls st1)(a := (calls st1 a)\<lparr>Reply := target\<rparr>)\<rparr>;
                         st3 = (case err of
                                  None \<Rightarrow> st2
                                | Some e \<Rightarrow>
                                    set_Error a (Some (ErrorsNew (''reading body '' @ error_text e))) st2)
                     in map_option (Pair err) (call_done a st3))))"

text \<open>
  The loop \<^verbatim>\<open>for err == nil\<close> of \<^verbatim>\<open>receive\<close>, by recursion on the frames that the stream still
  holds. The result is the error that ended the loop and the state then.
\<close>

fun receive_loop :: "'v frame list \<Rightarrow> 'v state \<Rightarrow> (error \<times> 'v state) option" where
  "receive_loop [] st = Some (read_err (cc st), st)"
| "receive_loop (f # fs) st =
     (case receive_body f (st\<lparr>cc := (cc st)\<lparr>incoming := fs\<rparr>\<rparr>) of
        None \<Rightarrow> None
      | Some (None, st') \<Rightarrow> receive_loop fs st'
      | Some (Some e, st') \<Rightarrow> Some (e, st'))"

text \<open>
  \<^verbatim>\<open>func (client *Client) receive()\<close>: the loop, then \<^verbatim>\<open>client.terminateCalls(err)\<close>, whose
  \<^verbatim>\<open>range\<close> visits the keys in the order \<open>order\<close>.
\<close>

definition receive :: "seqno list \<Rightarrow> 'v state \<Rightarrow> 'v state option" where
  "receive order st =
     (case receive_loop (incoming (cc st)) st of
        None \<Rightarrow> None
      | Some (e, st') \<Rightarrow> terminateCalls order (Some e) st')"

subsection \<open>Sending\<close>

text \<open>
  \<^verbatim>\<open>func (client *Client) send(call *Call)\<close>, run by one goroutine alone: \<open>None\<close> when
  \<^verbatim>\<open>call.done()\<close> blocks.
\<close>

definition send :: "addr \<Rightarrow> 'v state \<Rightarrow> 'v state option" where
  "send a st =
     (case registerCall a st of
        (Inl err, st1) \<Rightarrow> call_done a (set_Error a (Some err) st1)
      | (Inr s, st1) \<Rightarrow>
          (let st2 = st1\<lparr>header := \<lparr>h_Service = Service (calls st1 a),
                                     h_Method = Method (calls st1 a),
                                     h_Seq = s,
                                     h_Error = []\<rparr>\<rparr>
           in case cc_Write (header st2) (Args (calls st2 a)) (cc st2) of
                (None, c) \<Rightarrow> Some (st2\<lparr>cc := c\<rparr>)
              | (Some err, c) \<Rightarrow>
                  (case removeCall s (st2\<lparr>cc := c\<rparr>) of
                     (None, st3) \<Rightarrow> Some st3
                   | (Some b, st3) \<Rightarrow> call_done b (set_Error b (Some err) st3))))"

subsection \<open>Go and Call\<close>

text \<open>How a function of the program ends: it returns, panics, or blocks for ever.\<close>

datatype 'a outcome = Returns 'a | Panics string | Blocks

text \<open>\<^verbatim>\<open>make(chan *Call, n)\<close>\<close>

definition make_chan :: "nat \<Rightarrow> 'v state \<Rightarrow> chan \<times> 'v state" where
  "make_chan n st =
     (next_chan st,
      st\<lparr>chans := (chans st)(next_chan st := \<lparr>cap = n, buf = []\<rparr>),
         next_chan := next_chan st + 1\<rparr>)"

text \<open>\<^verbatim>\<open>&Call{Service: service, Method: method, Args: args, Reply: reply, Done: done}\<close>\<close>

definition new_Call :: "string \<Rightarrow> string \<Rightarrow> 'v \<Rightarrow> 'v option \<Rightarrow> chan \<Rightarrow> 'v state \<Rightarrow> addr \<times> 'v state" where
  "new_Call service method args reply ch st =
     (next_call st,
      st\<lparr>calls := (calls st)(next_call st :=
             \<lparr>Seq = 0, Service = service, Method = method, Args = args, Reply = reply,
              Error = None, Done = Some ch\<rparr>),
         next_call := next_call st + 1\<rparr>)"

text \<open>\<^verbatim>\<open><-ch\<close>: the oldest call of the buffer; \<open>None\<close> when the buffer is empty and the receive waits.\<close>

definition chan_recv :: "chan \<Rightarrow> 'v state \<Rightarrow> (addr \<times> 'v state) option" where
  "chan_recv ch st =
     (case buf (chans st ch) of
        [] \<Rightarrow> None
      | b # bs \<Rightarrow> Some (b, st\<lparr>chans := (chans st)(ch := (chans st ch)\<lparr>buf := bs\<rparr>)\<rparr>))"

text \<open>
  \<^verbatim>\<open>func (client *Client) Go(service, method string, args, reply interface{}, done chan *Call) *Call\<close>.
  \<^verbatim>\<open>log.Panic\<close> panics with its message.
\<close>

definition Go :: "string \<Rightarrow> string \<Rightarrow> 'v \<Rightarrow> 'v option \<Rightarrow> chan option \<Rightarrow> 'v state \<Rightarrow> (addr \<times> 'v state) outcome" where
  "Go service method args reply dn st =
     (case (case dn of
              None \<Rightarrow> Inr (make_chan 10 st)
            | Some ch \<Rightarrow>
                if cap (chans st ch) = 0 then Inl ''rpc client: done channel is unbuffered''
                else Inr (ch, st)) of
        Inl msg \<Rightarrow> Panics msg
      | Inr (ch, st1) \<Rightarrow>
          (case new_Call service method args reply ch st1 of
             (a, st2) \<Rightarrow>
               (case send a st2 of
                  None \<Rightarrow> Blocks
                | Some st3 \<Rightarrow> Returns (a, st3))))"

text \<open>
  \<^verbatim>\<open>func (client *Client) Call(service, method string, args, reply interface{}) error\<close>, run
  by one goroutine alone: when \<^verbatim>\<open>send\<close> has put nothing on the channel, the receive waits for
  the goroutine of \<^verbatim>\<open>receive\<close>, and the outcome is \<open>Blocks\<close>.
\<close>

definition Call :: "string \<Rightarrow> string \<Rightarrow> 'v \<Rightarrow> 'v option \<Rightarrow> 'v state \<Rightarrow> (error option \<times> 'v state) outcome" where
  "Call service method args reply st =
     (case make_chan 1 st of
        (ch, st1) \<Rightarrow>
          (case Go service method args reply (Some ch) st1 of
             Panics msg \<Rightarrow> Panics msg
           | Blocks \<Rightarrow> Blocks
           | Returns (a, st2) \<Rightarrow>
               (case Done (calls st2 a) of
                  None \<Rightarrow> Blocks
                | Some d \<Rightarrow>
                    (case chan_recv d st2 of
                       None \<Rightarrow> Blocks
                     | Some (b, st3) \<Rightarrow> Returns (Error (calls st3 b), st3)))))"

subsection \<open>Auxiliary functions of the statements\<close>

text \<open>
  The calls that a \<^verbatim>\<open>range\<close> over the keys \<open>ks\<close> sends on channel \<open>ch\<close>, in the order of
  the sends: for each key, the pending call stored under it, when \<open>ch\<close> is its \<^verbatim>\<open>Done\<close>.
\<close>

definition on_chan :: "'v state \<Rightarrow> chan \<Rightarrow> seqno list \<Rightarrow> addr list" where
  "on_chan st ch ks =
     map (\<lambda>k. the (pending st k))
       (filter (\<lambda>k. Done (calls st (the (pending st k))) = Some ch) ks)"

text \<open>
  A history of registry operations on one client, as the mutex \<open>mu\<close> orders them:
  registrations, removals and closes. \<open>run_ops\<close> runs a history and collects the sequence
  numbers that the successful registrations returned, in the order of the registrations.
\<close>

datatype reg_op = Register addr | Remove seqno | CloseClient

fun run_ops :: "reg_op list \<Rightarrow> 'v state \<Rightarrow> seqno list \<times> 'v state" where
  "run_ops [] st = ([], st)"
| "run_ops (Register a # ops) st =
     (case registerCall a st of
        (Inl e, st') \<Rightarrow> run_ops ops st'
      | (Inr s, st') \<Rightarrow> (case run_ops ops st' of (ss, st'') \<Rightarrow> (s # ss, st'')))"
| "run_ops (Remove s # ops) st = run_ops ops (snd (removeCall s st))"
| "run_ops (CloseClient # ops) st = run_ops ops (snd (Close st))"

subsection \<open>Goroutines\<close>

text \<open>
  The concurrent program: the goroutine of \<^verbatim>\<open>receive\<close>, one goroutine in \<^verbatim>\<open>send\<close> for every
  Call that \<^verbatim>\<open>Go\<close> builds, goroutines that call \<^verbatim>\<open>Close\<close>, and the callers that receive from
  the \<^verbatim>\<open>Done\<close> channels. A step of a goroutine is one access to what the goroutines share
  (locking or unlocking a mutex, a critical section of \<open>mu\<close>, a send or a receive on a
  channel, a read or a write of the codec) together with the writes to the fields of a
  Call that are next to it in the source. The steps of different goroutines interleave in
  any order. The critical sections of \<^verbatim>\<open>registerCall\<close>, \<^verbatim>\<open>removeCall\<close> and \<^verbatim>\<open>Close\<close> lock \<open>mu\<close>,
  run without blocking and unlock it: each is a single step that needs \<open>mu\<close> free.
  \<^verbatim>\<open>terminateCalls\<close> keeps both mutexes over its sends, so its locks, each iteration of its
  \<^verbatim>\<open>range\<close> and its unlocks are steps of their own.
\<close>

datatype owner = Receiver | Sender addr

text \<open>The six places of the source that run \<^verbatim>\<open>call.done()\<close>.\<close>

datatype path =
  NormalReply | RemoteError | DecodeFailure | SendFailure | RegistrationFailure | BulkTermination

text \<open>
  Where the goroutine of \<^verbatim>\<open>receive\<close> stands: before \<^verbatim>\<open>ReadHeader\<close> (line 204); before
  \<^verbatim>\<open>removeCall\<close> (207) with the frame whose header it read; at the \<^verbatim>\<open>switch\<close> (208) with what
  \<^verbatim>\<open>removeCall\<close> returned; before \<^verbatim>\<open>call.done()\<close> (217, 224) with the call, the value of \<^verbatim>\<open>err\<close> and
  the case of the \<^verbatim>\<open>switch\<close>; after the loop, before \<^verbatim>\<open>sending.Lock()\<close> of \<^verbatim>\<open>terminateCalls\<close>
  (104); before \<^verbatim>\<open>mu.Lock()\<close> (106); in the \<^verbatim>\<open>range\<close> (109-112) with the keys still to visit;
  before the deferred \<^verbatim>\<open>mu.Unlock()\<close>; before the deferred \<^verbatim>\<open>sending.Unlock()\<close>; returned.
\<close>

datatype 'v recv_pc =
    R_ReadHeader
  | R_Remove "'v frame"
  | R_Switch "'v frame" "addr option"
  | R_Done addr "error option" path
  | R_Terminate error
  | R_LockMu error
  | R_Range error "seqno list"
  | R_UnlockMu
  | R_UnlockSending
  | R_Exit

text \<open>
  Where a goroutine in \<^verbatim>\<open>send\<close> stands: before \<^verbatim>\<open>sending.Lock()\<close> (232); before
  \<^verbatim>\<open>registerCall\<close> (236); after a failed registration, before lines 238-239; after a
  registration that returned the sequence number, before lines 244-250; after a failed
  \<^verbatim>\<open>Write\<close>, before \<^verbatim>\<open>removeCall\<close> (251); with the call that \<^verbatim>\<open>removeCall\<close> returned, before
  lines 254-255; before the deferred \<^verbatim>\<open>sending.Unlock()\<close>; returned.
\<close>

datatype send_pc =
    S_Start
  | S_Register
  | S_RegFailed error
  | S_Write seqno
  | S_Remove seqno error
  | S_Done addr error
  | S_Unlock
  | S_Return

text \<open>
  The state of the program: the client and the store, the holders of the two mutexes, the
  goroutine of \<^verbatim>\<open>receive\<close>, and for every address the goroutine that runs \<^verbatim>\<open>send\<close> on the
  Call at that address (\<^verbatim>\<open>Go\<close> builds a Call for one \<^verbatim>\<open>send\<close> only, and nothing else refers to
  the Call before \<^verbatim>\<open>send\<close> registers it). \<open>delivered\<close> is a history: the sends of a call on
  its \<^verbatim>\<open>Done\<close> channel so far, each with the place that sent it; the channels forget them
  as the callers receive them.
\<close>

record 'v system =
  mem :: "'v state"
  sending :: "owner option"
  mu :: "owner option"
  receiver :: "'v recv_pc"
  senders :: "addr \<Rightarrow> send_pc"
  delivered :: "addr \<Rightarrow> path list"

text \<open>
  The program after \<^verbatim>\<open>newClientCodec\<close>: the goroutine of \<^verbatim>\<open>receive\<close> is started and no \<^verbatim>\<open>send\<close>
  has begun.
\<close>

definition start :: "'v codec \<Rightarrow> 'v state \<Rightarrow> 'v system" where
  "start c st =
     \<lparr>mem = newClientCodec c st, sending = None, mu = None, receiver = R_ReadHeader,
      senders = (\<lambda>a. S_Start), delivered = (\<lambda>a. [])\<rparr>"

text \<open>The end of an iteration of the loop: \<^verbatim>\<open>for err == nil\<close>.\<close>

definition after_body :: "error option \<Rightarrow> 'v recv_pc" where
  "after_body err = (case err of None \<Rightarrow> R_ReadHeader | Some e \<Rightarrow> R_Terminate e)"

text \<open>
  The steps. \<open>r_\<close> rules are \<^verbatim>\<open>receive\<close> and the \<^verbatim>\<open>terminateCalls\<close> it ends with, \<open>s_\<close> rules are
  \<^verbatim>\<open>send\<close> for the Call at address \<open>a\<close>, \<open>close\<close> is a call of \<^verbatim>\<open>Close\<close>, and \<open>consume\<close> is a
  caller receiving from a channel. A step with \<open>call_done\<close> can be taken when the send does
  not block. In \<open>r_lock_mu\<close> the list \<open>ks\<close> is the order in which \<^verbatim>\<open>range\<close> will visit the keys.
\<close>

inductive step :: "'v system \<Rightarrow> 'v system \<Rightarrow> bool" where
  r_header:
    "receiver s = R_ReadHeader \<Longrightarrow> cc_ReadHeader (cc (mem s)) = (r, c) \<Longrightarrow>
     step s (s\<lparr>mem := (mem s)\<lparr>cc := c\<rparr>,
               receiver := (case r of Inl e \<Rightarrow> R_Terminate e | Inr f \<Rightarrow> R_Remove f)\<rparr>)"
| r_remove:
    "receiver s = R_Remove f \<Longrightarrow> mu s = None \<Longrightarrow>
     removeCall (h_Seq (f_header f)) (mem s) = (r, m) \<Longrightarrow>
     step s (s\<lparr>mem := m, receiver := R_Switch f r\<rparr>)"
| r_orphan:
    "receiver s = R_Switch f None \<Longrightarrow>
     step s (s\<lparr>receiver := after_body (snd (cc_ReadBody f None))\<rparr>)"
| r_remote_error:
    "receiver s = R_Switch f (Some a) \<Longrightarrow> h_Error (f_header f) \<noteq> [] \<Longrightarrow>
     step s (s\<lparr>mem := set_Error a (Some (FmtErrorf (h_Error (f_header f)))) (mem s),
               receiver := R_Done a (snd (cc_ReadBody f None)) RemoteError\<rparr>)"
| r_reply:
    "receiver s = R_Switch f (Some a) \<Longrightarrow> h_Error (f_header f) = [] \<Longrightarrow>
     cc_ReadBody f (Reply (calls (mem s) a)) = (target, None) \<Longrightarrow>
     step s (s\<lparr>mem := (mem s)\<lparr>calls := (calls (mem s))(a := (calls (mem s) a)\<lparr>Reply := target\<rparr>)\<rparr>,
               receiver := R_Done a None NormalReply\<rparr>)"
| r_decode_failure:
    "receiver s = R_Switch f (Some a) \<Longrightarrow> h_Error (f_header f) = [] \<Longrightarrow>
     cc_ReadBody f (Reply (calls (mem s) a)) = (target, Some e) \<Longrightarrow>
     step s (s\<lparr>mem := set_Error a (Some (ErrorsNew (''reading body '' @ error_text e)))
                        ((mem s)\<lparr>calls := (calls (mem s))(a := (calls (mem s) a)\<lparr>Reply := target\<rparr>)\<rparr>),
               receiver := R_Done a (Some e) DecodeFailure\<rparr>)"
| r_done:
    "receiver s = R_Done a err p \<Longrightarrow> call_done a (mem s) = Some m \<Longrightarrow>
     step s (s\<lparr>mem := m, delivered := (delivered s)(a := delivered s a @ [p]),
               receiver := after_body err\<rparr>)"
| r_lock_sending:
    "receiver s = R_Terminate e \<Longrightarrow> sending s = None \<Longrightarrow>
     step s (s\<lparr>sending := Some Receiver, receiver := R_LockMu e\<rparr>)"
| r_lock_mu:
    "receiver s = R_LockMu e \<Longrightarrow> mu s = None \<Longrightarrow> range_order ks (mem s) \<Longrightarrow>
     step s (s\<lparr>mu := Some Receiver, mem := (mem s)\<lparr>shutdown := True\<rparr>,
               receiver := R_Range e ks\<rparr>)"
| r_range:
    "receiver s = R_Range e (k # ks) \<Longrightarrow> pending (mem s) k = Some a \<Longrightarrow>
     call_done a (set_Error a (Some e) (mem s)) = Some m \<Longrightarrow>
     step s (s\<lparr>mem := m, delivered := (delivered s)(a := delivered s a @ [BulkTermination]),
               receiver := R_Range e ks\<rparr>)"
| r_range_end:
    "receiver s = R_Range e [] \<Longrightarrow> step s (s\<lparr>receiver := R_UnlockMu\<rparr>)"
| r_unlock_mu:
    "receiver s = R_UnlockMu \<Longrightarrow> step s (s\<lparr>mu := None, receiver := R_UnlockSending\<rparr>)"
| r_unlock_sending:
    "receiver s = R_UnlockSending \<Longrightarrow> step s (s\<lparr>sending := None, receiver := R_Exit\<rparr>)"
| s_lock:
    "senders s a = S_Start \<Longrightarrow> sending s = None \<Longrightarrow>
     step s (s\<lparr>sending := Some (Sender a), senders := (senders s)(a := S_Register)\<rparr>)"
| s_register:
    "senders s a = S_Register \<Longrightarrow> mu s = None \<Longrightarrow> registerCall a (mem s) = (r, m) \<Longrightarrow>
     step s (s\<lparr>mem := m,
               senders := (senders s)(a := (case r of Inl e \<Rightarrow> S_RegFailed e | Inr q \<Rightarrow> S_Write q))\<rparr>)"
| s_reg_failed:
    "senders s a = S_RegFailed e \<Longrightarrow> call_done a (set_Error a (Some e) (mem s)) = Some m \<Longrightarrow>
     step s (s\<lparr>mem := m, delivered := (delivered s)(a := delivered s a @ [RegistrationFailure]),
               senders := (senders s)(a := S_Unlock)\<rparr>)"
| s_write:
    "senders s a = S_Write q \<Longrightarrow>
     m = (mem s)\<lparr>header := \<lparr>h_Service = Service (calls (mem s) a),
                             h_Method = Method (calls (mem s) a),
                             h_Seq = q, h_Error = []\<rparr>\<rparr> \<Longrightarrow>
     cc_Write (header m) (Args (calls m a)) (cc m) = (r, c) \<Longrightarrow>
     step s (s\<lparr>mem := m\<lparr>cc := c\<rparr>,
               senders := (senders s)(a := (case r of None \<Rightarrow> S_Unlock | Some e \<Rightarrow> S_Remove q e))\<rparr>)"
| s_remove:
    "senders s a = S_Remove q e \<Longrightarrow> mu s = None \<Longrightarrow> removeCall q (mem s) = (r, m) \<Longrightarrow>
     step s (s\<lparr>mem := m,
               senders := (senders s)(a := (case r of None \<Rightarrow> S_Unlock | Some b \<Rightarrow> S_Done b e))\<rparr>)"
| s_done:
    "senders s a = S_Done b e \<Longrightarrow> call_done b (set_Error b (Some e) (mem s)) = Some m \<Longrightarrow>
     step s (s\<lparr>mem := m, delivered := (delivered s)(b := delivered s b @ [SendFailure]),
               senders := (senders s)(a := S_Unlock)\<rparr>)"
| s_unlock:
    "senders s a = S_Unlock \<Longrightarrow>
     step s (s\<lparr>sending := None, senders := (senders s)(a := S_Return)\<rparr>)"
| close:
    "mu s = None \<Longrightarrow> Close (mem s) = (r, m) \<Longrightarrow> step s (s\<lparr>mem := m\<rparr>)"
| consume:
    "chan_recv ch (mem s) = Some (b, m) \<Longrightarrow> step s (s\<lparr>mem := m\<rparr>)"

inductive reachable :: "'v system \<Rightarrow> bool" where
  reach_start: "reachable (start c st)"
| reach_step: "reachable s \<Longrightarrow> step s s' \<Longrightarrow> reachable s'"

subsection \<open>Schedules\<close>

text \<open>
  The step relation as a function, for running the program on a schedule: an action names
  the goroutine that takes its next step (for the goroutine of \<^verbatim>\<open>receive\<close>, with the order
  its \<^verbatim>\<open>range\<close> would use). The result is \<open>None\<close> when that goroutine cannot take a step.
\<close>

datatype action = Act_Receiver "seqno list" | Act_Sender addr | Act_Close | Act_Consume chan

fun receiver_step :: "seqno list \<Rightarrow> 'v system \<Rightarrow> 'v recv_pc \<Rightarrow> 'v system option" where
  "receiver_step ks s R_ReadHeader =
     (case cc_ReadHeader (cc (mem s)) of
        (r, c) \<Rightarrow> Some (s\<lparr>mem := (mem s)\<lparr>cc := c\<rparr>,
                          receiver := (case r of Inl e \<Rightarrow> R_Terminate e | Inr f \<Rightarrow> R_Remove f)\<rparr>))"
| "receiver_step ks s (R_Remove f) =
     (if mu s = None
      then (case removeCall (h_Seq (f_header f)) (mem s) of
              (r, m) \<Rightarrow> Some (s\<lparr>mem := m, receiver := R_Switch f r\<rparr>))
      else None)"
| "receiver_step ks s (R_Switch f None) =
     Some (s\<lparr>receiver := after_body (snd (cc_ReadBody f None))\<rparr>)"
| "receiver_step ks s (R_Switch f (Some a)) =
     (if h_Error (f_header f) \<noteq> []
      then Some (s\<lparr>mem := set_Error a (Some (FmtErrorf (h_Error (f_header f)))) (mem s),
                    receiver := R_Done a (snd (cc_ReadBody f None)) RemoteError\<rparr>)
      else (case cc_ReadBody f (Reply (calls (mem s) a)) of
              (target, None) \<Rightarrow>
                Some (s\<lparr>mem := (mem s)\<lparr>calls := (calls (mem s))(a := (calls (mem s) a)\<lparr>Reply := target\<rparr>)\<rparr>,
                        receiver := R_Done a None NormalReply\<rparr>)
            | (target, Some e) \<Rightarrow>
                Some (s\<lparr>mem := set_Error a (Some (ErrorsNew (''reading body '' @ error_text e)))
                          ((mem s)\<lparr>calls := (calls (mem s))(a := (calls (mem s) a)\<lparr>Reply := target\<rparr>)\<rparr>),
                        receiver := R_Done a (Some e) DecodeFailure\<rparr>)))"
| "receiver_step ks s (R_Done a err p) =
     (case call_done a (mem s) of
        None \<Rightarrow> None
      | Some m \<Rightarrow> Some (s\<lparr>mem := m, delivered := (delivered s)(a := delivered s a @ [p]),
                          receiver := after_body err\<rparr>))"
| "receiver_step ks s (R_Terminate e) =
     (if sending s = None then Some (s\<lparr>sending := Some Receiver, receiver := R_LockMu e\<rparr>)
      else None)"
| "receiver_step ks s (R_LockMu e) =
     (if mu s = None \<and> range_order ks (mem s)
      then Some (s\<lparr>mu := Some Receiver, mem := (mem s)\<lparr>shutdown := True\<rparr>,
                    receiver := R_Range e ks\<rparr>)
      else None)"
| "receiver_step ks s (R_Range e []) = Some (s\<lparr>receiver := R_UnlockMu\<rparr>)"
| "receiver_step ks s (R_Range e (k # ks')) =
     (case pending (mem s) k of
        None \<Rightarrow> None
      | Some a \<Rightarrow>
          (case call_done a (set_Error a (Some e) (mem s)) of
             None \<Rightarrow> None
           | Some m \<Rightarrow>
               Some (s\<lparr>mem := m,
                       delivered := (delivered s)(a := delivered s a @ [BulkTermination]),
                       receiver := R_Range e ks'\<rparr>)))"
| "receiver_step ks s R_UnlockMu = Some (s\<lparr>mu := None, receiver := R_UnlockSending\<rparr>)"
| "receiver_step ks s R_UnlockSending = Some (s\<lparr>sending := None, receiver := R_Exit\<rparr>)"
| "receiver_step ks s R_Exit = None"

fun sender_step :: "addr \<Rightarrow> 'v system \<Rightarrow> send_pc \<Rightarrow> 'v system option" where
  "sender_step a s S_Start =
     (if sending s = None
      then Some (s\<lparr>sending := Some (Sender a), senders := (senders s)(a := S_Register)\<rparr>)
      else None)"
| "sender_step a s S_Register =
     (if mu s = None
      then (case registerCall a (mem s) of
              (r, m) \<Rightarrow>
                Some (s\<lparr>mem := m,
                        senders := (senders s)(a := (case r of Inl e \<Rightarrow> S_RegFailed e
                                                      | Inr q \<Rightarrow> S_Write q))\<rparr>))
      else None)"
| "sender_step a s (S_RegFailed e) =
     (case call_done a (set_Error a (Some e) (mem s)) of
        None \<Rightarrow> None
      | Some m \<Rightarrow>
          Some (s\<lparr>mem := m,
                  delivered := (delivered s)(a := delivered s a @ [RegistrationFailure]),
                  senders := (senders s)(a := S_Unlock)\<rparr>))"
| "sender_step a s (S_Write q) =
     (let m = (mem s)\<lparr>header := \<lparr>h_Service = Service (calls (mem s) a),
                                  h_Method = Method (calls (mem s) a),
                                  h_Seq = q, h_Error = []\<rparr>\<rparr>
      in case cc_Write (header m) (Args (calls m a)) (cc m) of
           (r, c) \<Rightarrow>
             Some (s\<lparr>mem := m\<lparr>cc := c\<rparr>,
                     senders := (senders s)(a := (case r of None \<Rightarrow> S_Unlock
                                                   | Some e \<Rightarrow> S_Remove q e))\<rparr>))"
| "sender_step a s (S_Remove q e) =
     (if mu s = None
      then (case removeCall q (mem s) of
              (r, m) \<Rightarrow>
                Some (s\<lparr>mem := m,
                        senders := (senders s)(a := (case r of None \<Rightarrow> S_Unlock
                                                      | Some b \<Rightarrow> S_Done b e))\<rparr>))
      else None)"
| "sender_step a s (S_Done b e) =
     (case call_done b (set_Error b (Some e) (mem s)) of
        None \<Rightarrow> None
      | Some m \<Rightarrow>
          Some (s\<lparr>mem := m, delivered := (delivered s)(b := delivered s b @ [SendFailure]),
                  senders := (senders s)(a := S_Unlock)\<rparr>))"
| "sender_step a s S_Unlock =
     Some (s\<lparr>sending := None, senders := (senders s)(a := S_Return)\<rparr>)"
| "sender_step a s S_Return = None"

fun act :: "action \<Rightarrow> 'v system \<Rightarrow> 'v system option" where
  "act (Act_Receiver ks) s = receiver_step ks s (receiver s)"
| "act (Act_Sender a) s = sender_step a s (senders s a)"
| "act Act_Close s =
     (if mu s = None then Some (s\<lparr>mem := snd (Close (mem s))\<rparr>) else None)"
| "act (Act_Consume ch) s =
     (case chan_recv ch (mem s) of None \<Rightarrow> None | Some (b, m) \<Rightarrow> Some (s\<lparr>mem := m\<rparr>))"

fun run :: "action list \<Rightarrow> 'v system \<Rightarrow> 'v system option" where
  "run [] s = Some s"
| "run (x # xs) s = (case act x s of None \<Rightarrow> None | Some s' \<Rightarrow> run xs s')"

subsection \<open>Who holds a call\<close>

text \<open>
  \<open>r_holds\<close>: the goroutine of \<^verbatim>\<open>receive\<close> has taken the call out of \<open>pending\<close> and has not yet
  sent it on its channel. The other predicates name groups of program points:
  \<open>terminating\<close>, from the \<^verbatim>\<open>range\<close> of \<^verbatim>\<open>terminateCalls\<close> on; \<open>r_locked\<close> and \<open>s_locked\<close>, holding
  the mutex \<open>sending\<close>; \<open>early\<close>, a \<^verbatim>\<open>send\<close> whose call was never registered; \<open>s_holds\<close>, a
  \<^verbatim>\<open>send\<close> before its \<^verbatim>\<open>call.done()\<close> of line 255; \<open>registered\<close>, a \<^verbatim>\<open>send\<close> between its
  registration and its \<^verbatim>\<open>removeCall\<close>.
\<close>

fun terminating :: "'v recv_pc \<Rightarrow> bool" where
  "terminating (R_Range e ks) = True"
| "terminating R_UnlockMu = True"
| "terminating R_UnlockSending = True"
| "terminating R_Exit = True"
| "terminating pc = False"

fun r_locked :: "'v recv_pc \<Rightarrow> bool" where
  "r_locked (R_LockMu e) = True"
| "r_locked (R_Range e ks) = True"
| "r_locked R_UnlockMu = True"
| "r_locked R_UnlockSending = True"
| "r_locked pc = False"

fun r_holds :: "'v recv_pc \<Rightarrow> addr \<Rightarrow> bool" where
  "r_holds (R_Switch f (Some b)) a = (a = b)"
| "r_holds (R_Done b err p) a = (a = b)"
| "r_holds pc a = False"

fun s_locked :: "send_pc \<Rightarrow> bool" where
  "s_locked S_Start = False"
| "s_locked S_Return = False"
| "s_locked pc = True"

fun early :: "send_pc \<Rightarrow> bool" where
  "early S_Start = True"
| "early S_Register = True"
| "early (S_RegFailed e) = True"
| "early pc = False"

fun s_holds :: "send_pc \<Rightarrow> bool" where
  "s_holds (S_Done b e) = True"
| "s_holds pc = False"

fun registered :: "send_pc \<Rightarrow> seqno \<Rightarrow> bool" where
  "registered (S_Write q) k = (k = q)"
| "registered (S_Remove q e) k = (k = q)"
| "registered pc k = False"

text \<open>
  The invariant of the program, in parts: a call has at most one event (\<open>I1\<close>); a call is
  stored under at most one key (\<open>I2\<close>); before bulk termination a pending call has no event
  (\<open>I3\<close>), and during it the keys still to visit are distinct and their calls have no
  event (\<open>I3r\<close>); a call that a goroutine holds has no event, is not pending and is held by
  nobody else (\<open>I4\<close>, \<open>I5\<close>, \<open>I6\<close>); the key of a \<^verbatim>\<open>send\<close> between registration and removal
  holds its call or none, and bulk termination has not begun (\<open>I7\<close>); who is between
  \<^verbatim>\<open>sending.Lock()\<close> and \<^verbatim>\<open>sending.Unlock()\<close> holds the mutex (\<open>I8\<close>); bulk termination has set
  \<open>shutdown\<close> (\<open>I9\<close>).
\<close>

definition I1 :: "'v system \<Rightarrow> bool" where
  "I1 s = (\<forall>a. length (delivered s a) \<le> 1)"
definition I2 :: "'v system \<Rightarrow> bool" where
  "I2 s = (\<forall>k k' a. pending (mem s) k = Some a \<longrightarrow> pending (mem s) k' = Some a \<longrightarrow> k = k')"
definition I3 :: "'v system \<Rightarrow> bool" where
  "I3 s = (\<not> terminating (receiver s) \<longrightarrow> (\<forall>k a. pending (mem s) k = Some a \<longrightarrow> delivered s a = []))"
definition I3r :: "'v system \<Rightarrow> bool" where
  "I3r s = (\<forall>e ks. receiver s = R_Range e ks \<longrightarrow>
      distinct ks \<and> (\<forall>k\<in>set ks. \<exists>a. pending (mem s) k = Some a \<and> delivered s a = []))"
definition I4 :: "'v system \<Rightarrow> bool" where
  "I4 s = (\<forall>a. r_holds (receiver s) a \<longrightarrow>
      delivered s a = [] \<and> (\<forall>k. pending (mem s) k \<noteq> Some a) \<and>
      \<not> early (senders s a) \<and> \<not> s_holds (senders s a))"
definition I5 :: "'v system \<Rightarrow> bool" where
  "I5 s = (\<forall>a. early (senders s a) \<longrightarrow> delivered s a = [] \<and> (\<forall>k. pending (mem s) k \<noteq> Some a))"
definition I6 :: "'v system \<Rightarrow> bool" where
  "I6 s = (\<forall>a b e. senders s b = S_Done a e \<longrightarrow>
      b = a \<and> delivered s a = [] \<and> (\<forall>k. pending (mem s) k \<noteq> Some a))"
definition I7 :: "'v system \<Rightarrow> bool" where
  "I7 s = (\<forall>a q. registered (senders s a) q \<longrightarrow>
      (\<forall>b. pending (mem s) q = Some b \<longrightarrow> b = a) \<and> \<not> terminating (receiver s))"
definition I8 :: "'v system \<Rightarrow> bool" where
  "I8 s = ((\<forall>a. s_locked (senders s a) \<longrightarrow> sending s = Some (Sender a)) \<and>
           (r_locked (receiver s) \<longrightarrow> sending s = Some Receiver))"
definition I9 :: "'v system \<Rightarrow> bool" where
  "I9 s = (terminating (receiver s) \<longrightarrow> shutdown (mem s))"

definition client_inv :: "'v system \<Rightarrow> bool" where
  "client_inv s = (I1 s \<and> I2 s \<and> I3 s \<and> I3r s \<and> I4 s \<and> I5 s \<and> I6 s \<and> I7 s \<and> I8 s \<and> I9 s)"

subsection \<open>Completion events\<close>

text \<open>
  \<open>sends s s' a p\<close>: the step from \<open>s\<close> to \<open>s'\<close> is a send of call \<open>a\<close> on its \<^verbatim>\<open>Done\<close> channel,
  which had a free slot: the buffer of that channel grows by \<open>a\<close>, no other channel
  changes, and the event, the first of \<open>a\<close>, enters the history with its place \<open>p\<close>.
  \<open>no_send s s'\<close>: the step sends nothing; the history is the same, and the channels are
  the same or one buffer has lost its oldest call to a caller. \<open>has_room s a\<close>: the \<^verbatim>\<open>Done\<close>
  channel of \<open>a\<close> has a free slot, so that \<^verbatim>\<open>call.done()\<close> does not wait.
\<close>

definition sends :: "'v system \<Rightarrow> 'v system \<Rightarrow> addr \<Rightarrow> path \<Rightarrow> bool" where
  "sends s s' a p =
     (case Done (calls (mem s) a) of
        None \<Rightarrow> False
      | Some ch \<Rightarrow>
          length (buf (chans (mem s) ch)) < cap (chans (mem s) ch) \<and>
          chans (mem s') =
            (chans (mem s))(ch := (chans (mem s) ch)\<lparr>buf := buf (chans (mem s) ch) @ [a]\<rparr>) \<and>
          delivered s a = [] \<and>
          delivered s' = (delivered s)(a := [p]))"

definition no_send :: "'v system \<Rightarrow> 'v system \<Rightarrow> bool" where
  "no_send s s' =
     (delivered s' = delivered s \<and>
      (chans (mem s') = chans (mem s) \<or>
       (\<exists>ch. chans (mem s') =
          (chans (mem s))(ch := (chans (mem s) ch)\<lparr>buf := tl (buf (chans (mem s) ch))\<rparr>))))"

definition has_room :: "'v system \<Rightarrow> addr \<Rightarrow> bool" where
  "has_room s a =
     (case Done (calls (mem s) a) of
        None \<Rightarrow> False
      | Some ch \<Rightarrow> length (buf (chans (mem s) ch)) < cap (chans (mem s) ch))"

subsection \<open>A concrete client\<close>

text \<open>
  A client fresh from \<^verbatim>\<open>newClientCodec\<close> in a store where the Call object at address \<open>a\<close> has
  the channel \<open>a\<close> as its \<^verbatim>\<open>Done\<close>, and every channel has capacity 1 and is empty.
\<close>

definition ex_call :: "nat Call" where
  "ex_call = \<lparr>Seq = 0, Service = ''Arith'', Method = ''Add'', Args = 0, Reply = Some 0,
              Error = None, Done = Some 0\<rparr>"

definition ex_codec :: "nat codec" where
  "ex_codec = \<lparr>incoming = [], read_err = CodecError ''EOF'', write_results = [], written = [],
               close_result = None, close_calls = 0\<rparr>"

definition ex_state :: "nat state" where
  "ex_state = newClientCodec ex_codec
     \<lparr>cc = ex_codec, header = \<lparr>h_Service = [], h_Method = [], h_Seq = 0, h_Error = []\<rparr>, seq = 0,
      pending = Map.empty, closing = False, shutdown = False,
      calls = (\<lambda>a. ex_call\<lparr>Done := Some a\<rparr>), chans = (\<lambda>c. \<lparr>cap = 1, buf = []\<rparr>),
      next_call = 2, next_chan = 2\<rparr>"

text \<open>
  A response frame for sequence number \<open>s\<close>; the client with the calls at addresses 0 and 1
  registered (under 1 and 2); that client with a stream whose first body cannot be decoded;
  and with a stream whose first response is for a sequence number that is not pending.
\<close>

definition ex_frame :: "seqno \<Rightarrow> error + nat \<Rightarrow> nat frame" where
  "ex_frame s body =
     \<lparr>f_header = \<lparr>h_Service = ''Arith'', h_Method = ''Add'', h_Seq = s, h_Error = []\<rparr>,
      f_discard = None, f_decode = body\<rparr>"

definition ex_pending :: "nat state" where
  "ex_pending = snd (registerCall 1 (snd (registerCall 0 ex_state)))"

definition ex_decode :: "nat state" where
  "ex_decode =
     ex_pending\<lparr>cc := ex_codec\<lparr>incoming :=
        [ex_frame 1 (Inl (CodecError ''type mismatch'')), ex_frame 2 (Inr 5)]\<rparr>\<rparr>"

definition ex_orphan :: "nat state" where
  "ex_orphan =
     ex_pending\<lparr>cc := ex_codec\<lparr>incoming := [ex_frame 7 (Inr 9), ex_frame 2 (Inr 5)]\<rparr>\<rparr>"

text \<open>
  A program whose first \<^verbatim>\<open>Write\<close> fails and whose peer answers sequence number 1, and four
  schedules of it. In \<open>receiver_wins\<close> the goroutine of \<^verbatim>\<open>receive\<close> removes call 0 before
  the failed \<^verbatim>\<open>send\<close> comes to its \<^verbatim>\<open>removeCall\<close>; in \<open>sender_wins\<close> the \<^verbatim>\<open>send\<close> removes it
  first. \<open>then_orphan\<close> goes on until the response for the removed call has been read,
  \<open>then_range\<close> until bulk termination is about to visit call 1, and \<open>then_late_sender\<close>
  until a \<^verbatim>\<open>send\<close> that started after the termination has failed to register.
\<close>

definition race_start :: "nat system" where
  "race_start = start
     (ex_codec\<lparr>incoming := [ex_frame 1 (Inr 5)],
               write_results := [Some (CodecError ''broken pipe'')]\<rparr>) ex_state"

definition receiver_wins :: "action list" where
  "receiver_wins =
     [Act_Sender 0, Act_Sender 0, Act_Receiver [], Act_Receiver [], Act_Sender 0, Act_Receiver []]"

definition sender_wins :: "action list" where
  "sender_wins = [Act_Sender 0, Act_Sender 0, Act_Sender 0, Act_Sender 0]"

definition then_orphan :: "action list" where
  "then_orphan = sender_wins @
     [Act_Sender 0, Act_Sender 0, Act_Sender 1, Act_Sender 1, Act_Sender 1, Act_Sender 1,
      Act_Receiver [], Act_Receiver []]"

definition then_range :: "action list" where
  "then_range = then_orphan @ [Act_Receiver [], Act_Receiver [], Act_Receiver [], Act_Receiver [2]]"

definition then_late_sender :: "action list" where
  "then_late_sender = then_range @
     [Act_Receiver [], Act_Receiver [], Act_Receiver [], Act_Receiver [],
      Act_Sender 2, Act_Sender 2]"

text \<open>The state of that program after a schedule.\<close>

definition race_after :: "action list \<Rightarrow> nat system" where
  "race_after xs = the (run xs race_start)"

text \<open>
  A program in which every call has channel 0, of capacity 1, as its \<^verbatim>\<open>Done\<close>; all writes
  succeed and the first \<^verbatim>\<open>ReadHeader\<close> fails. In the schedule \<open>full_channel\<close> the calls 0 and
  1 are sent, the read fails, and \<^verbatim>\<open>terminateCalls\<close> takes both mutexes and completes call 0.
\<close>

definition shared_start :: "nat system" where
  "shared_start = start ex_codec (ex_state\<lparr>calls := (\<lambda>a. ex_call)\<rparr>)"

definition full_channel :: "action list" where
  "full_channel =
     [Act_Sender 0, Act_Sender 0, Act_Sender 0, Act_Sender 0,
      Act_Sender 1, Act_Sender 1, Act_Sender 1, Act_Sender 1,
      Act_Receiver [], Act_Receiver [], Act_Receiver [1, 2], Act_Receiver []]"

section \<open>Properties\<close>

subsection \<open>Facts about the concrete client\<close>

lemma ex_pending_simps:
  "pending ex_pending = [1 \<mapsto> 0, 2 \<mapsto> 1]" "seq ex_pending = 3"
  "\<not> closing ex_pending" "\<not> shutdown ex_pending"
  "chans ex_pending = (\<lambda>c. \<lparr>cap = 1, buf = []\<rparr>)"
  "Done (calls ex_pending a) = Some a" "Reply (calls ex_pending a) = Some 0"
  "Error (calls ex_pending a) = None"
  by (simp_all add: ex_pending_def ex_state_def newClientCodec_def registerCall_def ex_call_def)

subsection \<open>The registry\<close>

text \<open>
  Claim C6. If \<open>closing\<close> or \<open>shutdown\<close> is true, \<open>registerCall\<close> fails with \<open>ErrShutdown\<close>
  and the state is the one before: no call is stored and the counter is not incremented.
  Otherwise it returns the current sequence number, has written it into the call, has
  stored the call under that number in \<open>pending\<close> and has incremented the counter; nothing
  else has changed.
\<close>

theorem registerCall_spec:
  "(closing st \<or> shutdown st \<longrightarrow> registerCall a st = (Inl ErrShutdown, st)) \<and>
   (\<not> closing st \<and> \<not> shutdown st \<longrightarrow>
      fst (registerCall a st) = Inr (seq st) \<and>
      Seq (calls (snd (registerCall a st)) a) = seq st \<and>
      pending (snd (registerCall a st)) = (pending st)(seq st \<mapsto> a) \<and>
      seq (snd (registerCall a st)) = seq st + 1 \<and>
      snd (registerCall a st) =
        st\<lparr>calls := (calls st)(a := (calls st a)\<lparr>Seq := seq st\<rparr>),
           pending := (pending st)(seq st \<mapsto> a), seq := seq st + 1\<rparr>)"
  by (simp add: registerCall_def)

theorem registerCall_spec_witness:
  "closing (ex_state\<lparr>closing := True\<rparr>) \<and>
   registerCall 0 (ex_state\<lparr>closing := True\<rparr>) = (Inl ErrShutdown, ex_state\<lparr>closing := True\<rparr>) \<and>
   shutdown (ex_state\<lparr>shutdown := True\<rparr>) \<and>
   registerCall 0 (ex_state\<lparr>shutdown := True\<rparr>) = (Inl ErrShutdown, ex_state\<lparr>shutdown := True\<rparr>) \<and>
   \<not> closing ex_state \<and> \<not> shutdown ex_state \<and>
   fst (registerCall 0 ex_state) = Inr 1 \<and>
   pending (snd (registerCall 0 ex_state)) 1 = Some 0 \<and>
   seq (snd (registerCall 0 ex_state)) = 2"
  using registerCall_spec [of "ex_state\<lparr>closing := True\<rparr>" 0]
    registerCall_spec [of "ex_state\<lparr>shutdown := True\<rparr>" 0]
    registerCall_spec [of ex_state 0]
  by (simp add: ex_state_def newClientCodec_def)

subsection \<open>The order of sequence numbers\<close>

lemma upt_shift: "map f [0..<Suc n] = f 0 # map (\<lambda>i. f (Suc i)) [0..<n]"
  by (simp only: upt_conv_Cons [of 0 "Suc n"] map_Suc_upt [symmetric] list.map map_map o_def zero_less_Suc)

lemma Close_seq: "seq (snd (Close st)) = seq st"
  by (simp add: Close_def cc_Close_def)

lemma removeCall_seq: "seq (snd (removeCall s st)) = seq st"
  by (simp add: removeCall_def)

lemma run_ops_seqs:
  "fst (run_ops ops st) = map (\<lambda>i. seq st + of_nat i) [0..<length (fst (run_ops ops st))]"
proof (induction ops arbitrary: st)
  case Nil
  then show ?case by simp
next
  case (Cons op ops)
  show ?case
  proof (cases op)
    case (Register a)
    show ?thesis
    proof (cases "closing st \<or> shutdown st")
      case True
      with Register Cons.IH [of st] show ?thesis by (simp add: registerCall_def)
    next
      case False
      define st' where "st' = snd (registerCall a st)"
      have s': "seq st' = seq st + 1" and r: "registerCall a st = (Inr (seq st), st')"
        using False by (simp_all add: st'_def registerCall_def)
      have "fst (run_ops (op # ops) st) = seq st # fst (run_ops ops st')"
        using Register r by (simp split: prod.splits)
      also have "fst (run_ops ops st') = map (\<lambda>i. seq st + 1 + of_nat i) [0..<length (fst (run_ops ops st'))]"
        using Cons.IH [of st'] by (simp add: s')
      finally have e: "fst (run_ops (op # ops) st) = seq st # map (\<lambda>i. seq st + of_nat (Suc i)) [0..<length (fst (run_ops ops st'))]"
        by (simp add: add.assoc add.commute)
      have l: "length (fst (run_ops (op # ops) st)) = Suc (length (fst (run_ops ops st')))"
        using Register r by (simp split: prod.splits)
      show ?thesis
        unfolding l upt_shift [of "\<lambda>i. seq st + of_nat i"] using e by simp
    qed
  next
    case (Remove s)
    with Cons.IH [of "snd (removeCall s st)"] show ?thesis by (simp add: removeCall_seq)
  next
    case CloseClient
    with Cons.IH [of "snd (Close st)"] show ?thesis by (simp add: Close_seq)
  qed
qed

lemma word64_of_nat_distinct:
  assumes "n \<le> 2 ^ 64"
  shows "distinct (map (\<lambda>i. c + (of_nat i :: 64 word)) [0..<n])"
proof -
  have "inj_on (\<lambda>i. c + (of_nat i :: 64 word)) {0..<n}"
  proof (rule inj_onI)
    fix x y assume x: "x \<in> {0..<n}" and y: "y \<in> {0..<n}" and "c + (of_nat x :: 64 word) = c + of_nat y"
    then have "(of_nat x :: 64 word) = of_nat y" by simp
    then have "unat (of_nat x :: 64 word) = unat (of_nat y :: 64 word)" by simp
    moreover have "x < 2 ^ 64" "y < 2 ^ 64" using x y assms by auto
    ultimately show "x = y" by (simp add: unat_of_nat)
  qed
  then show ?thesis by (simp add: distinct_map)
qed

text \<open>
  Claim C4. Over any history of registrations, removals and closes on a client fresh from
  \<open>newClientCodec\<close>, the sequence numbers returned by the successful registrations are
  1, 2, ..., N in the order of the registrations, so each is a distinct number in [1, N] and
  none is assigned twice. N is below \<open>2 ^ 64\<close>, the range of the counter.
\<close>

theorem registration_order:
  assumes "fst (run_ops ops (newClientCodec c st0)) = ss" and "length ss < 2 ^ 64"
  shows "ss = map of_nat [1..<Suc (length ss)] \<and> distinct ss \<and>
         (\<forall>i<length ss. unat (ss ! i) = i + 1)"
proof -
  have "seq (newClientCodec c st0) = 1" by (simp add: newClientCodec_def)
  with run_ops_seqs [of ops "newClientCodec c st0"] assms(1)
  have e: "ss = map (\<lambda>i. 1 + of_nat i) [0..<length ss]" by simp
  then have e': "ss = map (\<lambda>i. of_nat (Suc i)) [0..<length ss]" by (simp add: add.commute)
  have 1: "ss = map of_nat [1..<Suc (length ss)]"
  proof -
    have "map (of_nat :: nat \<Rightarrow> seqno) [1..<Suc (length ss)] =
          map (of_nat :: nat \<Rightarrow> seqno) (map Suc [0..<length ss])"
      by (simp only: map_Suc_upt One_nat_def)
    with e' show ?thesis by (simp add: o_def)
  qed
  have 2: "distinct ss"
    using word64_of_nat_distinct [of "length ss" 1] assms(2) e by simp
  have 3: "\<forall>i<length ss. unat (ss ! i) = i + 1"
  proof (intro allI impI)
    fix i assume i: "i < length ss"
    then have "ss ! i = of_nat (Suc i)"
      using e' by (metis (no_types, lifting) add_0 length_map nth_map nth_upt length_upt diff_zero)
    moreover have "Suc i < 2 ^ 64" using i assms(2) by simp
    moreover have "unat (of_nat (Suc i) :: seqno) = Suc i mod 2 ^ LENGTH(64)"
      by (rule unat_of_nat)
    ultimately show "unat (ss ! i) = i + 1" by (simp del: of_nat_Suc)
  qed
  from 1 2 3 show ?thesis by blast
qed

theorem registration_order_witness:
  "fst (run_ops [Register 0, Remove 1, Register 1, CloseClient, Register 0]
          (newClientCodec ex_codec ex_state)) = [1, 2] \<and>
   length [1, 2 :: seqno] < 2 ^ 64 \<and>
   distinct [1, 2 :: seqno] \<and>
   unat ([1, 2 :: seqno] ! 0) = 1 \<and> unat ([1, 2 :: seqno] ! 1) = 2"
proof -
  have r: "fst (run_ops [Register 0, Remove 1, Register 1, CloseClient, Register 0]
          (newClientCodec ex_codec ex_state)) = [1, 2]"
    by (simp add: newClientCodec_def registerCall_def removeCall_def Close_def cc_Close_def)
  have l: "length [1, 2 :: seqno] < 2 ^ 64" by simp
  from registration_order [OF r l] r l show ?thesis by (simp add: nth_Cons')
qed

subsection \<open>Go, Call and send on a client that is not available\<close>

lemma Close_closing: "closing (snd (Close st))"
  by (simp add: Close_def cc_Close_def split: prod.splits)

lemma send_closed:
  "closing st \<or> shutdown st \<Longrightarrow> send a st = call_done a (set_Error a (Some ErrShutdown) st)"
  by (simp add: send_def registerCall_def)



lemma Call_unavailable:
  assumes "closing st \<or> shutdown st"
  shows "Call service method args reply st =
     Returns (Some ErrShutdown,
       st\<lparr>calls := (calls st)(next_call st :=
              \<lparr>Seq = 0, Service = service, Method = method, Args = args, Reply = reply,
               Error = Some ErrShutdown, Done = Some (next_chan st)\<rparr>),
          chans := (chans st)(next_chan st := \<lparr>cap = 1, buf = []\<rparr>),
          next_call := next_call st + 1, next_chan := next_chan st + 1\<rparr>)"
  using assms
  by (auto simp add: Call_def Go_def make_chan_def new_Call_def send_def registerCall_def call_done_def set_Error_def chan_recv_def)

lemma Go_nil_returns:
  "\<exists>st'. Go service method args reply None st = Returns (next_call st, st') \<and>
     Done (calls st' (next_call st)) = Some (next_chan st) \<and>
     cap (chans st' (next_chan st)) = 10"
  by (auto simp add: Go_def make_chan_def new_Call_def send_def registerCall_def call_done_def
      set_Error_def removeCall_def cc_Write_def Let_def split: list.splits option.splits)

lemma Go_unbuffered_panics:
  "cap (chans st ch) = 0 \<Longrightarrow>
   Go service method args reply (Some ch) st = Panics ''rpc client: done channel is unbuffered''"
  by (simp add: Go_def)

lemma receive_loop_orphan:
  assumes "pending st (h_Seq (f_header f)) = None"
  shows "receive_loop (f # fs) st =
     (case f_discard f of
        None \<Rightarrow> receive_loop fs (st\<lparr>cc := (cc st)\<lparr>incoming := fs\<rparr>\<rparr>)
      | Some e \<Rightarrow> Some (e, st\<lparr>cc := (cc st)\<lparr>incoming := fs\<rparr>\<rparr>))"
proof -
  have "(pending st)(h_Seq (f_header f) := None) = pending st"
    using assms by (simp add: fun_upd_idem)
  then show ?thesis
    using assms
    by (simp add: receive_body_def removeCall_def cc_ReadBody_def split: option.splits)
qed

text \<open>
  Claim C10. When \<open>shutdown\<close> is true and \<open>closing\<close> is false, \<open>Close\<close> does not return
  \<open>ErrShutdown\<close> of its own: it sets \<open>closing\<close>, calls the codec's close once and returns
  what that call returned. \<open>Close\<close> reads \<open>closing\<close> only.
\<close>

theorem Close_ignores_shutdown:
  "shutdown st \<and> \<not> closing st \<Longrightarrow>
   Close st = (close_result (cc st),
               st\<lparr>closing := True, cc := (cc st)\<lparr>close_calls := close_calls (cc st) + 1\<rparr>\<rparr>)"
  by (simp add: Close_def cc_Close_def)

theorem Close_ignores_shutdown_witness:
  "shutdown (ex_state\<lparr>shutdown := True\<rparr>) \<and> \<not> closing (ex_state\<lparr>shutdown := True\<rparr>) \<and>
   fst (Close (ex_state\<lparr>shutdown := True\<rparr>)) = None \<and>
   closing (snd (Close (ex_state\<lparr>shutdown := True\<rparr>))) \<and>
   close_calls (cc (snd (Close (ex_state\<lparr>shutdown := True\<rparr>)))) = 1"
proof -
  have h: "shutdown (ex_state\<lparr>shutdown := True\<rparr>) \<and> \<not> closing (ex_state\<lparr>shutdown := True\<rparr>)"
    by (simp add: ex_state_def newClientCodec_def)
  show ?thesis
    using h Close_ignores_shutdown [OF h]
    by (simp add: ex_state_def newClientCodec_def ex_codec_def)
qed



text \<open>
  Claim C9. \<open>Go\<close> without a channel makes a channel of capacity 10 for the call and
  returns the call in every state of the client, whatever the codec answers: no send of
  \<open>Go\<close> blocks. \<open>Go\<close> with a channel of capacity 0 panics at once, before a call is built.
\<close>

theorem Go_done_channel:
  "(\<exists>st'. Go service method args reply None st = Returns (next_call st, st') \<and>
      Done (calls st' (next_call st)) = Some (next_chan st) \<and>
      cap (chans st' (next_chan st)) = 10) \<and>
   (cap (chans st ch) = 0 \<longrightarrow>
      Go service method args reply (Some ch) st = Panics ''rpc client: done channel is unbuffered'')"
  using Go_nil_returns [of service "method" args reply st] Go_unbuffered_panics [of st ch]
  by blast

theorem Go_done_channel_witness:
  "(\<exists>st'. Go ''Arith'' ''Add'' 2 (Some 0) None ex_state = Returns (2, st') \<and>
      Done (calls st' 2) = Some 2 \<and> cap (chans st' 2) = 10) \<and>
   cap (chans (ex_state\<lparr>chans := (chans ex_state)(0 := \<lparr>cap = 0, buf = []\<rparr>)\<rparr>) 0) = 0 \<and>
   Go ''Arith'' ''Add'' 2 (Some 0) (Some 0)
      (ex_state\<lparr>chans := (chans ex_state)(0 := \<lparr>cap = 0, buf = []\<rparr>)\<rparr>) =
     Panics ''rpc client: done channel is unbuffered''"
proof -
  have nc: "next_call ex_state = 2" "next_chan ex_state = 2"
    by (simp_all add: ex_state_def newClientCodec_def)
  from Go_done_channel [of "''Arith''" "''Add''" 2 "Some 0" ex_state 0]
    Go_done_channel [of "''Arith''" "''Add''" 2 "Some 0"
      "ex_state\<lparr>chans := (chans ex_state)(0 := \<lparr>cap = 0, buf = []\<rparr>)\<rparr>" 0]
    nc
  show ?thesis by simp
qed

text \<open>
  Claim C8, as stated, fails: on a closing client \<open>Go\<close> puts the call with the error
  \<open>ErrShutdown\<close> on its \<open>Done\<close> channel, and \<open>Call\<close> returns the \<open>ErrShutdown\<close> it receives
  from that channel.
\<close>

theorem ErrShutdown_on_Done_channel:
  "(case Go ''Arith'' ''Add'' 0 (Some 0) (Some 0) (ex_state\<lparr>closing := True\<rparr>) of
      Returns (a, st') \<Rightarrow> buf (chans st' 0) = [a] \<and> Error (calls st' a) = Some ErrShutdown
    | Panics msg \<Rightarrow> False
    | Blocks \<Rightarrow> False) \<and>
   (case Call ''Arith'' ''Add'' 0 (Some 0) (ex_state\<lparr>closing := True\<rparr>) of
      Returns (e, st') \<Rightarrow> e = Some ErrShutdown
    | Panics msg \<Rightarrow> False
    | Blocks \<Rightarrow> False)"
  by (simp add: Call_def Go_def make_chan_def new_Call_def send_def registerCall_def call_done_def
      set_Error_def chan_recv_def ex_state_def newClientCodec_def)

text \<open>
  Claim C8, amended. On a client that is closing or shut down, \<open>registerCall\<close> returns
  \<open>ErrShutdown\<close> to its caller and \<open>Close\<close> returns it when \<open>closing\<close> is set; \<open>send\<close> does
  not return it: it stores \<open>ErrShutdown\<close> in the call's error and sends the call on its
  \<open>Done\<close> channel, and \<open>Call\<close> returns the error of the call it receives there, with
  nothing written to the codec.
\<close>

theorem ErrShutdown_delivery:
  "closing st \<or> shutdown st \<Longrightarrow>
     fst (registerCall a st) = Inl ErrShutdown \<and>
     send a st = call_done a (set_Error a (Some ErrShutdown) st) \<and>
     (closing st \<longrightarrow> fst (Close st) = Some ErrShutdown) \<and>
     (\<exists>st'. Call service method args reply st = Returns (Some ErrShutdown, st') \<and>
        written (cc st') = written (cc st))"
  by (simp add: registerCall_def send_closed Close_def Call_unavailable)

theorem ErrShutdown_delivery_witness:
  "closing (ex_state\<lparr>closing := True\<rparr>) \<and>
   fst (registerCall 0 (ex_state\<lparr>closing := True\<rparr>)) = Inl ErrShutdown \<and>
   send 0 (ex_state\<lparr>closing := True\<rparr>) =
     call_done 0 (set_Error 0 (Some ErrShutdown) (ex_state\<lparr>closing := True\<rparr>)) \<and>
   fst (Close (ex_state\<lparr>closing := True\<rparr>)) = Some ErrShutdown \<and>
   (\<exists>st'. Call ''Arith'' ''Add'' 2 (Some 0) (ex_state\<lparr>closing := True\<rparr>) =
      Returns (Some ErrShutdown, st'))"
proof -
  have c: "closing (ex_state\<lparr>closing := True\<rparr>)" by simp
  then have h: "closing (ex_state\<lparr>closing := True\<rparr>) \<or> shutdown (ex_state\<lparr>closing := True\<rparr>)"
    by simp
  from ErrShutdown_delivery [OF h, of 0 "''Arith''" "''Add''" 2 "Some 0"] c
  show ?thesis by blast
qed

subsection \<open>The receive loop\<close>

lemma cc_ReadBody_failed_target:
  "snd (cc_ReadBody f t) = Some e \<Longrightarrow> fst (cc_ReadBody f t) = t"
  by (auto simp add: cc_ReadBody_def split: option.splits sum.splits)

lemma receive_loop_body_failure:
  assumes p: "pending st (h_Seq (f_header f)) = Some a"
    and h: "h_Error (f_header f) = []"
    and b: "snd (cc_ReadBody f (Reply (calls st a))) = Some e"
    and d: "Done (calls st a) = Some ch"
    and room: "length (buf (chans st ch)) < cap (chans st ch)"
  shows "receive_loop (f # fs) st =
     Some (e, st\<lparr>cc := (cc st)\<lparr>incoming := fs\<rparr>,
                 pending := (pending st)(h_Seq (f_header f) := None),
                 calls := (calls st)(a := (calls st a)
                    \<lparr>Error := Some (ErrorsNew (''reading body '' @ error_text e))\<rparr>),
                 chans := (chans st)(ch := (chans st ch)\<lparr>buf := buf (chans st ch) @ [a]\<rparr>)\<rparr>)"
proof -
  obtain t where rb: "cc_ReadBody f (Reply (calls st a)) = (t, Some e)"
    using b by (cases "cc_ReadBody f (Reply (calls st a))") simp
  with cc_ReadBody_failed_target [OF b] have t: "t = Reply (calls st a)" by simp
  show ?thesis
    using p h d room rb
    by (simp add: receive_body_def removeCall_def call_done_def set_Error_def t)
qed

lemma call_done_fields:
  "call_done a st = Some st' \<Longrightarrow>
   pending st' = pending st \<and> calls st' = calls st \<and> cc st' = cc st \<and> seq st' = seq st \<and>
   closing st' = closing st \<and> shutdown st' = shutdown st \<and> header st' = header st"
  by (auto simp add: call_done_def split: option.splits if_splits)

lemma terminate_range_fields:
  "terminate_range err ks st = Some st' \<Longrightarrow>
   pending st' = pending st \<and> cc st' = cc st \<and> seq st' = seq st \<and>
   closing st' = closing st \<and> shutdown st' = shutdown st \<and> header st' = header st"
proof (induction ks arbitrary: st)
  case Nil
  then show ?case by simp
next
  case (Cons k ks)
  show ?case
  proof (cases "pending st k")
    case None
    with Cons show ?thesis by simp
  next
    case (Some a)
    with Cons.prems obtain st1 where d: "call_done a (set_Error a err st) = Some st1"
      and r: "terminate_range err ks st1 = Some st'"
      by (auto split: option.splits)
    from call_done_fields [OF d] Cons.IH [OF r] show ?thesis
      by (simp add: set_Error_def)
  qed
qed

lemma terminate_range_closed_form:
  assumes "\<forall>k\<in>set ks. \<exists>a ch. pending st k = Some a \<and> Done (calls st a) = Some ch"
    and "\<forall>ch. length (buf (chans st ch)) + length (on_chan st ch ks) \<le> cap (chans st ch)"
  shows "\<exists>st'. terminate_range err ks st = Some st' \<and>
     (\<forall>a. calls st' a = (if a \<in> (\<lambda>k. the (pending st k)) ` set ks then (calls st a)\<lparr>Error := err\<rparr> else calls st a)) \<and>
     (\<forall>ch. chans st' ch = (chans st ch)\<lparr>buf := buf (chans st ch) @ on_chan st ch ks\<rparr>)"
  using assms
proof (induction ks arbitrary: st)
  case Nil
  then show ?case by (simp add: on_chan_def)
next
  case (Cons k ks)
  from Cons.prems(1) obtain a ch where pk: "pending st k = Some a" and da: "Done (calls st a) = Some ch"
    by auto
  from Cons.prems(2) have "length (buf (chans st ch)) + length (on_chan st ch (k # ks)) \<le> cap (chans st ch)"
    by blast
  with pk da have room: "length (buf (chans st ch)) < cap (chans st ch)"
    by (simp add: on_chan_def)
  define st1 where "st1 = (set_Error a err st)\<lparr>chans := (chans st)(ch := (chans st ch)\<lparr>buf := buf (chans st ch) @ [a]\<rparr>)\<rparr>"
  have d: "call_done a (set_Error a err st) = Some st1"
    using da room by (simp add: call_done_def set_Error_def st1_def)
  have p1: "pending st1 = pending st" by (simp add: st1_def set_Error_def)
  have D1: "\<And>b. Done (calls st1 b) = Done (calls st b)" by (simp add: st1_def set_Error_def)
  have oc: "\<And>c ks'. on_chan st1 c ks' = on_chan st c ks'" by (simp add: on_chan_def p1 D1)
  have h1: "\<forall>k\<in>set ks. \<exists>a ch. pending st1 k = Some a \<and> Done (calls st1 a) = Some ch"
    using Cons.prems(1) by (simp add: p1 D1)
  have h2: "\<forall>c. length (buf (chans st1 c)) + length (on_chan st1 c ks) \<le> cap (chans st1 c)"
  proof
    fix c
    from Cons.prems(2) have "length (buf (chans st c)) + length (on_chan st c (k # ks)) \<le> cap (chans st c)"
      by blast
    then show "length (buf (chans st1 c)) + length (on_chan st1 c ks) \<le> cap (chans st1 c)"
      unfolding oc using pk da by (auto simp add: st1_def set_Error_def on_chan_def)
  qed
  from Cons.IH [OF h1 h2] obtain st' where
    r: "terminate_range err ks st1 = Some st'"
    and c: "\<forall>b. calls st' b = (if b \<in> (\<lambda>k. the (pending st1 k)) ` set ks then (calls st1 b)\<lparr>Error := err\<rparr> else calls st1 b)"
    and b: "\<forall>c. chans st' c = (chans st1 c)\<lparr>buf := buf (chans st1 c) @ on_chan st1 c ks\<rparr>"
    by blast
  have "terminate_range err (k # ks) st = Some st'"
    using pk d r by simp
  moreover have "\<forall>b. calls st' b = (if b \<in> (\<lambda>k. the (pending st k)) ` set (k # ks) then (calls st b)\<lparr>Error := err\<rparr> else calls st b)"
    using c pk unfolding p1 by (auto simp add: st1_def set_Error_def)
  moreover have "\<forall>c. chans st' c = (chans st c)\<lparr>buf := buf (chans st c) @ on_chan st c (k # ks)\<rparr>"
    using b pk da unfolding oc by (auto simp add: st1_def set_Error_def on_chan_def)
  ultimately show ?case by blast
qed

lemma terminate_range_skip:
  "pending st s = None \<Longrightarrow> terminate_range err (s # ks) st = terminate_range err ks st"
  by simp

text \<open>
  Claim C7. When the header read has a sequence number with no call in \<open>pending\<close>, the
  iteration reads the body into nil and changes nothing but the position in the stream.
  The loop then goes on with the next header; it ends in this iteration only when that
  body read fails, with the error of the read.
\<close>

theorem receive_orphan_continues:
  "pending st (h_Seq (f_header f)) = None \<Longrightarrow>
   receive_loop (f # fs) st =
     (case f_discard f of
        None \<Rightarrow> receive_loop fs (st\<lparr>cc := (cc st)\<lparr>incoming := fs\<rparr>\<rparr>)
      | Some e \<Rightarrow> Some (e, st\<lparr>cc := (cc st)\<lparr>incoming := fs\<rparr>\<rparr>))"
  by (rule receive_loop_orphan)

theorem receive_orphan_continues_witness:
  "pending ex_orphan 7 = None \<and>
   receive_loop [ex_frame 7 (Inr 9), ex_frame 2 (Inr 5)] ex_orphan =
     receive_loop [ex_frame 2 (Inr 5)] (ex_orphan\<lparr>cc := (cc ex_orphan)\<lparr>incoming := [ex_frame 2 (Inr 5)]\<rparr>\<rparr>) \<and>
   receive_loop [ex_frame 7 (Inr 9), ex_frame 2 (Inr 5)] ex_orphan \<noteq> None \<and>
   fst (the (receive_loop [ex_frame 7 (Inr 9), ex_frame 2 (Inr 5)] ex_orphan)) = CodecError ''EOF'' \<and>
   Reply (calls (snd (the (receive_loop [ex_frame 7 (Inr 9), ex_frame 2 (Inr 5)] ex_orphan))) 1) = Some 5 \<and>
   buf (chans (snd (the (receive_loop [ex_frame 7 (Inr 9), ex_frame 2 (Inr 5)] ex_orphan))) 1) = [1]"
proof -
  have p: "pending ex_orphan (h_Seq (f_header (ex_frame 7 (Inr 9)))) = None"
    by (simp add: ex_orphan_def ex_pending_simps ex_frame_def)
  have d: "f_discard (ex_frame 7 (Inr 9)) = None" by (simp add: ex_frame_def)
  have e: "\<exists>st'. receive_loop [ex_frame 2 (Inr 5)]
       (ex_orphan\<lparr>cc := (cc ex_orphan)\<lparr>incoming := [ex_frame 2 (Inr 5)]\<rparr>\<rparr>) = Some (CodecError ''EOF'', st') \<and>
       Reply (calls st' 1) = Some 5 \<and> buf (chans st' 1) = [1]"
    by (simp add: receive_body_def removeCall_def cc_ReadBody_def call_done_def set_Error_def
        ex_orphan_def ex_pending_simps ex_frame_def ex_codec_def Let_def)
  from receive_orphan_continues [OF p, of "[ex_frame 2 (Inr 5)]"] d p e
  show ?thesis by (auto simp add: ex_frame_def)
qed

text \<open>
  Claim C3, as stated, fails: after a body that cannot be decoded the loop reads no further
  header. The second response stays in the stream, \<open>shutdown\<close> is set, and the call it was
  for ends with the decode error and without its reply.
\<close>

theorem decode_failure_ends_receive:
  "receive [2] ex_decode \<noteq> None \<and>
   shutdown (the (receive [2] ex_decode)) \<and>
   incoming (cc (the (receive [2] ex_decode))) = [ex_frame 2 (Inr 5)] \<and>
   Error (calls (the (receive [2] ex_decode)) 1) = Some (CodecError ''type mismatch'') \<and>
   Reply (calls (the (receive [2] ex_decode)) 1) = Some 0"
proof -
  have "\<exists>st'. receive [2] ex_decode = Some st' \<and> shutdown st' \<and>
     incoming (cc st') = [ex_frame 2 (Inr 5)] \<and>
     Error (calls st' 1) = Some (CodecError ''type mismatch'') \<and> Reply (calls st' 1) = Some 0"
    by (simp add: receive_def receive_body_def removeCall_def cc_ReadBody_def terminateCalls_def
        call_done_def set_Error_def ex_decode_def ex_pending_simps ex_frame_def ex_codec_def Let_def)
  then obtain st' where "receive [2] ex_decode = Some st'" "shutdown st'"
    "incoming (cc st') = [ex_frame 2 (Inr 5)]"
    "Error (calls st' 1) = Some (CodecError ''type mismatch'')" "Reply (calls st' 1) = Some 0"
    by blast
  then show ?thesis by simp
qed

text \<open>
  Claim C3, amended. When the body of a response cannot be read into the reply target of
  its call, that call's error becomes \<^verbatim>\<open>reading body\<close> followed by the text of the read
  error, the call has left \<open>pending\<close> and is sent once on its \<open>Done\<close> channel; and the loop
  ends: \<open>receive\<close> goes on as \<open>terminateCalls\<close> with the read error, so if it returns,
  \<open>shutdown\<close> is set and the rest of the stream is unread.
\<close>

theorem decode_failure_delivery:
  assumes "incoming (cc st) = f # fs"
    and "pending st (h_Seq (f_header f)) = Some a"
    and "h_Error (f_header f) = []"
    and "snd (cc_ReadBody f (Reply (calls st a))) = Some e"
    and "Done (calls st a) = Some ch"
    and "length (buf (chans st ch)) < cap (chans st ch)"
  shows "receive order st =
     terminateCalls order (Some e)
       (st\<lparr>cc := (cc st)\<lparr>incoming := fs\<rparr>,
           pending := (pending st)(h_Seq (f_header f) := None),
           calls := (calls st)(a := (calls st a)
              \<lparr>Error := Some (ErrorsNew (''reading body '' @ error_text e))\<rparr>),
           chans := (chans st)(ch := (chans st ch)\<lparr>buf := buf (chans st ch) @ [a]\<rparr>)\<rparr>) \<and>
     (\<forall>st'. receive order st = Some st' \<longrightarrow>
        shutdown st' \<and> incoming (cc st') = fs \<and>
        pending st' = (pending st)(h_Seq (f_header f) := None))"
proof -
  let ?st2 = "st\<lparr>cc := (cc st)\<lparr>incoming := fs\<rparr>,
           pending := (pending st)(h_Seq (f_header f) := None),
           calls := (calls st)(a := (calls st a)
              \<lparr>Error := Some (ErrorsNew (''reading body '' @ error_text e))\<rparr>),
           chans := (chans st)(ch := (chans st ch)\<lparr>buf := buf (chans st ch) @ [a]\<rparr>)\<rparr>"
  have r: "receive order st = terminateCalls order (Some e) ?st2"
    using receive_loop_body_failure [OF assms(2-6), of fs] assms(1) by (simp add: receive_def)
  have "shutdown st' \<and> incoming (cc st') = fs \<and>
        pending st' = (pending st)(h_Seq (f_header f) := None)"
    if "receive order st = Some st'" for st'
  proof -
    from that r have "terminate_range (Some e) order (?st2\<lparr>shutdown := True\<rparr>) = Some st'"
      by (simp add: terminateCalls_def)
    from terminate_range_fields [OF this] show ?thesis by simp
  qed
  with r show ?thesis by blast
qed

theorem decode_failure_delivery_witness:
  "incoming (cc ex_decode) = [ex_frame 1 (Inl (CodecError ''type mismatch'')), ex_frame 2 (Inr 5)] \<and>
   pending ex_decode 1 = Some 0 \<and>
   snd (cc_ReadBody (ex_frame 1 (Inl (CodecError ''type mismatch''))) (Reply (calls ex_decode 0))) =
     Some (CodecError ''type mismatch'') \<and>
   Done (calls ex_decode 0) = Some 0 \<and>
   length (buf (chans ex_decode 0)) < cap (chans ex_decode 0) \<and>
   receive [2] ex_decode \<noteq> None \<and>
   shutdown (the (receive [2] ex_decode)) \<and>
   incoming (cc (the (receive [2] ex_decode))) = [ex_frame 2 (Inr 5)] \<and>
   pending (the (receive [2] ex_decode)) 1 = None \<and>
   pending (the (receive [2] ex_decode)) 2 = Some 1"
proof -
  let ?f = "ex_frame 1 (Inl (CodecError ''type mismatch''))"
  have 1: "incoming (cc ex_decode) = ?f # [ex_frame 2 (Inr 5)]"
    and 2: "pending ex_decode (h_Seq (f_header ?f)) = Some 0"
    and 3: "h_Error (f_header ?f) = []"
    and 4: "snd (cc_ReadBody ?f (Reply (calls ex_decode 0))) = Some (CodecError ''type mismatch'')"
    and 5: "Done (calls ex_decode 0) = Some 0"
    and 6: "length (buf (chans ex_decode 0)) < cap (chans ex_decode 0)"
    by (simp_all add: ex_decode_def ex_pending_simps ex_frame_def cc_ReadBody_def)
  have s: "h_Seq (f_header ?f) = 1" by (simp add: ex_frame_def)
  have ne: "receive [2] ex_decode \<noteq> None"
    by (simp add: receive_def receive_body_def removeCall_def cc_ReadBody_def terminateCalls_def
        call_done_def set_Error_def ex_decode_def ex_pending_simps ex_frame_def ex_codec_def Let_def)
  then obtain st' where r: "receive [2] ex_decode = Some st'" by blast
  from decode_failure_delivery [OF 1 2 3 4 5 6, of "[2]"] r
  have "shutdown st' \<and> incoming (cc st') = [ex_frame 2 (Inr 5)] \<and>
        pending st' = (pending ex_decode)(1 := None)"
    by (simp add: s)
  with r 1 2 4 5 6 show ?thesis
    by (simp add: s ex_decode_def ex_pending_simps)
qed

subsection \<open>Bulk termination\<close>

text \<open>
  Claim C2, as stated, fails: \<open>terminateCalls\<close> does not clear the registry. The calls it
  completed are still in \<open>pending\<close> afterwards.
\<close>

theorem terminateCalls_keeps_pending:
  "terminateCalls [1, 2] (Some (CodecError ''EOF'')) ex_pending \<noteq> None \<and>
   pending (the (terminateCalls [1, 2] (Some (CodecError ''EOF'')) ex_pending)) 1 = Some 0 \<and>
   pending (the (terminateCalls [1, 2] (Some (CodecError ''EOF'')) ex_pending)) \<noteq> Map.empty"
proof -
  have "\<exists>st'. terminateCalls [1, 2] (Some (CodecError ''EOF'')) ex_pending = Some st' \<and> pending st' 1 = Some 0"
    by (simp add: terminateCalls_def call_done_def set_Error_def ex_pending_simps)
  then obtain st' where "terminateCalls [1, 2] (Some (CodecError ''EOF'')) ex_pending = Some st'"
    "pending st' 1 = Some 0" by blast
  then show ?thesis by auto
qed

text \<open>
  Claim C2, amended. When every pending call has a channel and the channels have room for
  the sends, \<open>terminateCalls\<close> sets \<open>shutdown\<close>, sets the error of every call in \<open>pending\<close>
  and sends each once on its \<open>Done\<close> channel (on every channel the buffer grows by the
  pending calls of that channel, one for each key), and leaves \<open>pending\<close> as it was; every
  later \<open>registerCall\<close> fails with \<open>ErrShutdown\<close>.
\<close>

theorem terminateCalls_spec:
  assumes ro: "range_order order st"
    and nonnil: "\<forall>k\<in>set order. Done (calls st (the (pending st k))) \<noteq> None"
    and room: "\<forall>ch. length (buf (chans st ch)) + length (on_chan st ch order) \<le> cap (chans st ch)"
  shows "\<exists>st'. terminateCalls order err st = Some st' \<and>
     shutdown st' \<and>
     pending st' = pending st \<and>
     (\<forall>k a. pending st k = Some a \<longrightarrow> Error (calls st' a) = err) \<and>
     (\<forall>ch. buf (chans st' ch) = buf (chans st ch) @ on_chan st ch order) \<and>
     (\<forall>ch. length (on_chan st ch order) =
        card {k \<in> dom (pending st). Done (calls st (the (pending st k))) = Some ch}) \<and>
     (\<forall>b. registerCall b st' = (Inl ErrShutdown, st'))"
proof -
  let ?st0 = "st\<lparr>shutdown := True\<rparr>"
  from ro have d: "distinct order" and s: "set order = dom (pending st)"
    by (simp_all add: range_order_def)
  have oc: "on_chan ?st0 ch ks = on_chan st ch ks" for ch ks by (simp add: on_chan_def)
  have h1: "\<forall>k\<in>set order. \<exists>a ch. pending ?st0 k = Some a \<and> Done (calls ?st0 a) = Some ch"
  proof
    fix k assume k: "k \<in> set order"
    with s obtain a where a: "pending st k = Some a" by auto
    with nonnil k obtain ch where "Done (calls st a) = Some ch" by fastforce
    with a show "\<exists>a ch. pending ?st0 k = Some a \<and> Done (calls ?st0 a) = Some ch" by simp
  qed
  have h2: "\<forall>ch. length (buf (chans ?st0 ch)) + length (on_chan ?st0 ch order) \<le> cap (chans ?st0 ch)"
    using room by (simp add: oc)
  from terminate_range_closed_form [OF h1 h2, of err] obtain st' where
    r: "terminate_range err order ?st0 = Some st'"
    and c: "\<forall>a. calls st' a =
        (if a \<in> (\<lambda>k. the (pending ?st0 k)) ` set order then (calls ?st0 a)\<lparr>Error := err\<rparr>
         else calls ?st0 a)"
    and b: "\<forall>ch. chans st' ch = (chans ?st0 ch)\<lparr>buf := buf (chans ?st0 ch) @ on_chan ?st0 ch order\<rparr>"
    by blast
  from terminate_range_fields [OF r] have f: "pending st' = pending st" "shutdown st'" by simp_all
  have e: "\<forall>k a. pending st k = Some a \<longrightarrow> Error (calls st' a) = err"
  proof (intro allI impI)
    fix k a assume a: "pending st k = Some a"
    then have "k \<in> set order" using s by auto
    then have "a \<in> (\<lambda>k. the (pending ?st0 k)) ` set order" using a by force
    with c show "Error (calls st' a) = err" by simp
  qed
  have n: "\<forall>ch. length (on_chan st ch order) =
        card {k \<in> dom (pending st). Done (calls st (the (pending st k))) = Some ch}"
  proof
    fix ch
    have "length (on_chan st ch order) =
        card ({k. Done (calls st (the (pending st k))) = Some ch} \<inter> set order)"
      using d by (simp add: on_chan_def distinct_length_filter)
    also have "{k. Done (calls st (the (pending st k))) = Some ch} \<inter> set order =
        {k \<in> dom (pending st). Done (calls st (the (pending st k))) = Some ch}"
      using s by auto
    finally show "length (on_chan st ch order) =
        card {k \<in> dom (pending st). Done (calls st (the (pending st k))) = Some ch}" .
  qed
  have g: "\<forall>b. registerCall b st' = (Inl ErrShutdown, st')"
    using f by (simp add: registerCall_def)
  from r f e b n g show ?thesis by (simp add: terminateCalls_def oc)
qed

theorem terminateCalls_spec_witness:
  "range_order [2, 1] ex_pending \<and>
   Done (calls ex_pending (the (pending ex_pending 1))) = Some 0 \<and>
   Done (calls ex_pending (the (pending ex_pending 2))) = Some 1 \<and>
   on_chan ex_pending 0 [2, 1] = [0] \<and> on_chan ex_pending 1 [2, 1] = [1] \<and>
   (\<exists>st'. terminateCalls [2, 1] (Some (CodecError ''EOF'')) ex_pending = Some st' \<and>
      shutdown st' \<and> pending st' = pending ex_pending \<and>
      Error (calls st' 0) = Some (CodecError ''EOF'') \<and>
      Error (calls st' 1) = Some (CodecError ''EOF'') \<and>
      buf (chans st' 0) = [0] \<and> buf (chans st' 1) = [1] \<and>
      registerCall 2 st' = (Inl ErrShutdown, st'))"
proof -
  have ro: "range_order [2, 1] ex_pending"
    by (auto simp add: range_order_def ex_pending_simps)
  have nn: "\<forall>k\<in>set [2, 1]. Done (calls ex_pending (the (pending ex_pending k))) \<noteq> None"
    by (simp add: ex_pending_simps)
  have oc: "on_chan ex_pending ch [2, 1] = (if ch = 1 then [1] else if ch = 0 then [0] else [])" for ch
    by (simp add: on_chan_def ex_pending_simps)
  have room: "\<forall>ch. length (buf (chans ex_pending ch)) + length (on_chan ex_pending ch [2, 1])
      \<le> cap (chans ex_pending ch)"
    by (simp add: oc ex_pending_simps)
  from terminateCalls_spec [OF ro nn room, of "Some (CodecError ''EOF'')"]
  obtain st' where *: "terminateCalls [2, 1] (Some (CodecError ''EOF'')) ex_pending = Some st'"
     "shutdown st'" "pending st' = pending ex_pending"
     "\<forall>k a. pending ex_pending k = Some a \<longrightarrow> Error (calls st' a) = Some (CodecError ''EOF'')"
     "\<forall>ch. buf (chans st' ch) = buf (chans ex_pending ch) @ on_chan ex_pending ch [2, 1]"
     "\<forall>b. registerCall b st' = (Inl ErrShutdown, st')"
    by blast
  from *(4) [rule_format, of 1 0] *(4) [rule_format, of 2 1]
  have "Error (calls st' 0) = Some (CodecError ''EOF'')"
    "Error (calls st' 1) = Some (CodecError ''EOF'')"
    by (simp_all add: ex_pending_simps)
  moreover from *(5) have "buf (chans st' 0) = [0]" "buf (chans st' 1) = [1]"
    by (simp_all add: oc ex_pending_simps)
  ultimately show ?thesis using ro * by (simp add: oc ex_pending_simps)
qed

subsection \<open>The invariant of the concurrent program\<close>

lemma set_Error_frame [simp]:
  "pending (set_Error a e m) = pending m" "shutdown (set_Error a e m) = shutdown m"
  by (simp_all add: set_Error_def)

lemma call_done_frame:
  "call_done a m = Some m' \<Longrightarrow> pending m' = pending m \<and> shutdown m' = shutdown m"
  by (auto simp add: call_done_def split: option.splits if_splits)

lemma removeCall_frame:
  "removeCall q m = (r, m') \<Longrightarrow>
   r = pending m q \<and> pending m' = (pending m)(q := None) \<and> shutdown m' = shutdown m"
  by (auto simp add: removeCall_def)

lemma registerCall_frame:
  "registerCall a m = (r, m') \<Longrightarrow>
   (r = Inl ErrShutdown \<and> m' = m) \<or>
   (r = Inr (seq m) \<and> \<not> shutdown m \<and> \<not> shutdown m' \<and> pending m' = (pending m)(seq m \<mapsto> a))"
  by (auto simp add: registerCall_def split: if_splits)

lemma Close_frame:
  "Close m = (r, m') \<Longrightarrow> pending m' = pending m \<and> shutdown m' = shutdown m"
  by (auto simp add: Close_def cc_Close_def split: if_splits)

lemma chan_recv_frame:
  "chan_recv ch m = Some (b, m') \<Longrightarrow> pending m' = pending m \<and> shutdown m' = shutdown m"
  by (auto simp add: chan_recv_def split: list.splits)

lemma call_done_pending: "call_done a m = Some m' \<Longrightarrow> pending m' = pending m"
  by (simp add: call_done_frame)

lemma removeCall_pending:
  "removeCall q m = (r, m') \<Longrightarrow> r = pending m q \<and> pending m' = (pending m)(q := None)"
  by (simp add: removeCall_frame)

lemma registerCall_pending:
  "registerCall a m = (r, m') \<Longrightarrow>
   (r = Inl ErrShutdown \<and> m' = m) \<or>
   (r = Inr (seq m) \<and> \<not> shutdown m \<and> pending m' = (pending m)(seq m \<mapsto> a))"
  by (auto simp add: registerCall_def split: if_splits)

lemma Close_pending: "Close m = (r, m') \<Longrightarrow> pending m' = pending m"
  by (simp add: Close_frame)

lemma chan_recv_pending: "chan_recv ch m = Some (b, m') \<Longrightarrow> pending m' = pending m"
  by (simp add: chan_recv_frame)

lemma after_body_simps [simp]:
  "\<not> terminating (after_body err)" "\<not> r_locked (after_body err)" "\<not> r_holds (after_body err) a"
  "after_body err \<noteq> R_Range e ks"
  by (simp_all add: after_body_def split: option.splits)

lemma inv_start: "client_inv (start c st)"
  by (simp add: client_inv_def start_def newClientCodec_def I1_def I2_def I3_def I3r_def I4_def I5_def
      I6_def I7_def I8_def I9_def)

lemma I1D: "client_inv s \<Longrightarrow> \<forall>a. length (delivered s a) \<le> 1"
  by (simp add: client_inv_def I1_def)
lemma I2D: "client_inv s \<Longrightarrow>
    \<forall>k k' a. pending (mem s) k = Some a \<longrightarrow> pending (mem s) k' = Some a \<longrightarrow> k = k'"
  by (simp add: client_inv_def I2_def)
lemma I3D: "client_inv s \<Longrightarrow>
    \<not> terminating (receiver s) \<longrightarrow> (\<forall>k a. pending (mem s) k = Some a \<longrightarrow> delivered s a = [])"
  by (simp add: client_inv_def I3_def)
lemma I3rD: "client_inv s \<Longrightarrow>
    \<forall>e ks. receiver s = R_Range e ks \<longrightarrow>
      distinct ks \<and> (\<forall>k\<in>set ks. \<exists>a. pending (mem s) k = Some a \<and> delivered s a = [])"
  by (simp add: client_inv_def I3r_def)
lemma I4D: "client_inv s \<Longrightarrow>
    \<forall>a. r_holds (receiver s) a \<longrightarrow>
      delivered s a = [] \<and> (\<forall>k. pending (mem s) k \<noteq> Some a) \<and>
      \<not> early (senders s a) \<and> \<not> s_holds (senders s a)"
  by (simp add: client_inv_def I4_def)
lemma I5D: "client_inv s \<Longrightarrow>
    \<forall>a. early (senders s a) \<longrightarrow> delivered s a = [] \<and> (\<forall>k. pending (mem s) k \<noteq> Some a)"
  by (simp add: client_inv_def I5_def)
lemma I6D: "client_inv s \<Longrightarrow>
    \<forall>a b e. senders s b = S_Done a e \<longrightarrow>
      b = a \<and> delivered s a = [] \<and> (\<forall>k. pending (mem s) k \<noteq> Some a)"
  by (simp add: client_inv_def I6_def)
lemma I7D: "client_inv s \<Longrightarrow>
    \<forall>a q. registered (senders s a) q \<longrightarrow>
      (\<forall>b. pending (mem s) q = Some b \<longrightarrow> b = a) \<and> \<not> terminating (receiver s)"
  by (simp add: client_inv_def I7_def)
lemma I8sD: "client_inv s \<Longrightarrow> \<forall>a. s_locked (senders s a) \<longrightarrow> sending s = Some (Sender a)"
  by (simp add: client_inv_def I8_def)
lemma I8rD: "client_inv s \<Longrightarrow> r_locked (receiver s) \<longrightarrow> sending s = Some Receiver"
  by (simp add: client_inv_def I8_def)
lemma I9D: "client_inv s \<Longrightarrow> terminating (receiver s) \<longrightarrow> shutdown (mem s)"
  by (simp add: client_inv_def I9_def)

lemma registered_locked: "registered pc q \<Longrightarrow> s_locked pc"
  by (cases pc) simp_all

lemma I3rG: "client_inv s \<Longrightarrow> receiver s = R_Range e ks \<Longrightarrow>
    distinct ks \<and> (\<forall>k\<in>set ks. \<exists>a. pending (mem s) k = Some a \<and> delivered s a = [])"
  using I3rD [of s] by blast

lemma I4G_switch: "client_inv s \<Longrightarrow> receiver s = R_Switch f (Some a) \<Longrightarrow>
    delivered s a = [] \<and> (\<forall>k. pending (mem s) k \<noteq> Some a) \<and>
    \<not> early (senders s a) \<and> \<not> s_holds (senders s a)"
  using I4D [of s] by simp

lemma I4G_done: "client_inv s \<Longrightarrow> receiver s = R_Done a err p \<Longrightarrow>
    delivered s a = [] \<and> (\<forall>k. pending (mem s) k \<noteq> Some a) \<and>
    \<not> early (senders s a) \<and> \<not> s_holds (senders s a)"
  using I4D [of s] by simp

lemma I5G_start: "client_inv s \<Longrightarrow> senders s a = S_Start \<Longrightarrow>
    delivered s a = [] \<and> (\<forall>k. pending (mem s) k \<noteq> Some a)"
  using I5D [of s] by (metis early.simps(1))

lemma I5G_register: "client_inv s \<Longrightarrow> senders s a = S_Register \<Longrightarrow>
    delivered s a = [] \<and> (\<forall>k. pending (mem s) k \<noteq> Some a)"
  using I5D [of s] by (metis early.simps(2))

lemma I5G_reg_failed: "client_inv s \<Longrightarrow> senders s a = S_RegFailed e \<Longrightarrow>
    delivered s a = [] \<and> (\<forall>k. pending (mem s) k \<noteq> Some a)"
  using I5D [of s] by (metis early.simps(3))

lemma I6G: "client_inv s \<Longrightarrow> senders s b = S_Done a e \<Longrightarrow>
    b = a \<and> delivered s a = [] \<and> (\<forall>k. pending (mem s) k \<noteq> Some a)"
  using I6D [of s] by blast

lemma I7G_write: "client_inv s \<Longrightarrow> senders s a = S_Write q \<Longrightarrow>
    (\<forall>b. pending (mem s) q = Some b \<longrightarrow> b = a) \<and> \<not> terminating (receiver s)"
  using I7D [of s] by (metis registered.simps(1))

lemma I7G_remove: "client_inv s \<Longrightarrow> senders s a = S_Remove q e \<Longrightarrow>
    (\<forall>b. pending (mem s) q = Some b \<longrightarrow> b = a) \<and> \<not> terminating (receiver s)"
  using I7D [of s] by (metis registered.simps(2))

lemma sender_locked_no_range:
  assumes "client_inv s" and "s_locked (senders s a)"
  shows "receiver s \<noteq> R_Range e ks"
proof
  assume "receiver s = R_Range e ks"
  then have "sending s = Some Receiver" using I8rD [OF assms(1)] by simp
  moreover have "sending s = Some (Sender a)" using I8sD [OF assms(1)] assms(2) by simp
  ultimately show False by simp
qed

lemma other_not_locked:
  assumes "client_inv s" and "s_locked (senders s a)" and "c \<noteq> a"
  shows "\<not> s_locked (senders s c)"
proof
  assume "s_locked (senders s c)"
  then have "sending s = Some (Sender c)" using I8sD [OF assms(1)] by blast
  moreover have "sending s = Some (Sender a)" using I8sD [OF assms(1)] assms(2) by blast
  ultimately show False using assms(3) by simp
qed

lemma other_not_registered:
  assumes "client_inv s" and "s_locked (senders s a)" and "c \<noteq> a"
  shows "\<not> registered (senders s c) q"
  using other_not_locked [OF assms] registered_locked by blast

lemma step_I1:
  assumes st: "step s s'" and inv: "client_inv s"
  shows "I1 s'"
  using st
proof cases
  case (r_done a err p m)
  with I4D [OF inv] I1D [OF inv] show ?thesis by (auto simp add: I1_def)
next
  case (r_range e k ks a m)
  with I3rD [OF inv] I1D [OF inv] show ?thesis by (auto simp add: I1_def)
next
  case (s_reg_failed a e m)
  with I5D [OF inv] I1D [OF inv] show ?thesis by (auto simp add: I1_def)
next
  case (s_done a b e m)
  with I6D [OF inv] I1D [OF inv] show ?thesis by (auto simp add: I1_def)
qed (use I1D [OF inv] in \<open>simp_all add: I1_def\<close>)

lemma step_I2:
  assumes st: "step s s'" and inv: "client_inv s"
  shows "I2 s'"
  using st
proof cases
  case (r_remove f r m)
  with removeCall_pending [of "h_Seq (f_header f)" "mem s" r m] I2D [OF inv] show ?thesis
    by (auto simp add: I2_def split: if_splits)
next
  case (s_remove a q e r m)
  with removeCall_pending [of q "mem s" r m] I2D [OF inv] show ?thesis
    by (auto simp add: I2_def split: if_splits)
next
  case (s_register a r m)
  with registerCall_pending [of a "mem s" r m] I5D [OF inv] I2D [OF inv] show ?thesis
    by (auto simp add: I2_def split: if_splits)
next
  case (r_done a err p m)
  with call_done_pending [of a "mem s" m] I2D [OF inv] show ?thesis by (auto simp add: I2_def)
next
  case (r_range e k ks a m)
  with call_done_pending [of a "set_Error a (Some e) (mem s)" m] I2D [OF inv] show ?thesis
    by (auto simp add: I2_def)
next
  case (s_reg_failed a e m)
  with call_done_pending [of a "set_Error a (Some e) (mem s)" m] I2D [OF inv] show ?thesis
    by (auto simp add: I2_def)
next
  case (s_done a b e m)
  with call_done_pending [of b "set_Error b (Some e) (mem s)" m] I2D [OF inv] show ?thesis
    by (auto simp add: I2_def)
next
  case (close r m)
  with Close_pending [of "mem s" r m] I2D [OF inv] show ?thesis by (auto simp add: I2_def)
next
  case (consume ch b m)
  with chan_recv_pending [of ch "mem s" b m] I2D [OF inv] show ?thesis by (auto simp add: I2_def)
qed (use I2D [OF inv] in \<open>auto simp add: I2_def\<close>)

lemma step_I3:
  assumes st: "step s s'" and inv: "client_inv s"
  shows "I3 s'"
  using st
proof cases
  case (r_header r c)
  from I3D [OF inv] I4D [OF inv] I5D [OF inv] I6D [OF inv] I7D [OF inv] r_header(2-)
  show ?thesis unfolding r_header(1) by (auto simp add: I3_def split: if_splits sum.splits option.splits; blast)
next
  case (r_remove f r m)
  from removeCall_pending [of "h_Seq (f_header f)" "mem s" r m] I3D [OF inv] I4D [OF inv] I5D [OF inv] I6D [OF inv] I7D [OF inv] r_remove(2-)
  show ?thesis unfolding r_remove(1) by (auto simp add: I3_def split: if_splits sum.splits option.splits; blast)
next
  case (r_orphan f)
  from I3D [OF inv] I4D [OF inv] I5D [OF inv] I6D [OF inv] I7D [OF inv] r_orphan(2-)
  show ?thesis unfolding r_orphan(1) by (auto simp add: I3_def split: if_splits sum.splits option.splits; blast)
next
  case (r_remote_error f a)
  from I4G_switch [OF inv r_remote_error(2)] I3D [OF inv] I4D [OF inv] I5D [OF inv] I6D [OF inv] I7D [OF inv] r_remote_error(2-)
  show ?thesis unfolding r_remote_error(1) by (auto simp add: I3_def split: if_splits sum.splits option.splits; blast)
next
  case (r_reply f a target)
  from I4G_switch [OF inv r_reply(2)] I3D [OF inv] I4D [OF inv] I5D [OF inv] I6D [OF inv] I7D [OF inv] r_reply(2-)
  show ?thesis unfolding r_reply(1) by (auto simp add: I3_def split: if_splits sum.splits option.splits; blast)
next
  case (r_decode_failure f a target e)
  from I4G_switch [OF inv r_decode_failure(2)] I3D [OF inv] I4D [OF inv] I5D [OF inv] I6D [OF inv] I7D [OF inv] r_decode_failure(2-)
  show ?thesis unfolding r_decode_failure(1) by (auto simp add: I3_def split: if_splits sum.splits option.splits; blast)
next
  case (r_done a err p m)
  from call_done_pending [of a "mem s" m] I4G_done [OF inv r_done(2)] I3D [OF inv] I4D [OF inv] I5D [OF inv] I6D [OF inv] I7D [OF inv] r_done(2-)
  show ?thesis unfolding r_done(1) by (auto simp add: I3_def split: if_splits sum.splits option.splits; blast)
next
  case (r_lock_sending e)
  from I3D [OF inv] I4D [OF inv] I5D [OF inv] I6D [OF inv] I7D [OF inv] r_lock_sending(2-)
  show ?thesis unfolding r_lock_sending(1) by (auto simp add: I3_def split: if_splits sum.splits option.splits; blast)
next
  case (r_lock_mu e ks)
  from I8rD [OF inv] I3D [OF inv] I4D [OF inv] I5D [OF inv] I6D [OF inv] I7D [OF inv] r_lock_mu(2-)
  show ?thesis unfolding r_lock_mu(1) by (auto simp add: I3_def split: if_splits sum.splits option.splits; blast)
next
  case (r_range e k ks a m)
  from call_done_pending [of a "set_Error a (Some e) (mem s)" m] I3rG [OF inv r_range(2)] I8rD [OF inv] I3D [OF inv] I4D [OF inv] I5D [OF inv] I6D [OF inv] I7D [OF inv] r_range(2-)
  show ?thesis unfolding r_range(1) by (auto simp add: I3_def split: if_splits sum.splits option.splits; blast)
next
  case (r_range_end e)
  from I3D [OF inv] I4D [OF inv] I5D [OF inv] I6D [OF inv] I7D [OF inv] r_range_end(2-)
  show ?thesis unfolding r_range_end(1) by (auto simp add: I3_def split: if_splits sum.splits option.splits; blast)
next
  case r_unlock_mu
  from I3D [OF inv] I4D [OF inv] I5D [OF inv] I6D [OF inv] I7D [OF inv] r_unlock_mu(2-)
  show ?thesis unfolding r_unlock_mu(1) by (auto simp add: I3_def split: if_splits sum.splits option.splits; blast)
next
  case r_unlock_sending
  from I8rD [OF inv] I3D [OF inv] I4D [OF inv] I5D [OF inv] I6D [OF inv] I7D [OF inv] r_unlock_sending(2-)
  show ?thesis unfolding r_unlock_sending(1) by (auto simp add: I3_def split: if_splits sum.splits option.splits; blast)
next
  case (s_lock a)
  from I5G_start [OF inv s_lock(2)] I3D [OF inv] I4D [OF inv] I5D [OF inv] I6D [OF inv] I7D [OF inv] s_lock(2-)
  show ?thesis unfolding s_lock(1) by (auto simp add: I3_def split: if_splits sum.splits option.splits; blast)
next
  case (s_register a r m)
  from registerCall_pending [of a "mem s" r m] I5G_register [OF inv s_register(2)] I8sD [OF inv, THEN spec, of a] I3D [OF inv] I4D [OF inv] I5D [OF inv] I6D [OF inv] I7D [OF inv] s_register(2-)
  show ?thesis unfolding s_register(1) by (auto simp add: I3_def split: if_splits sum.splits option.splits; blast)
next
  case (s_reg_failed a e m)
  from call_done_pending [of a "set_Error a (Some e) (mem s)" m] I5G_reg_failed [OF inv s_reg_failed(2)] I8sD [OF inv, THEN spec, of a] I3D [OF inv] I4D [OF inv] I5D [OF inv] I6D [OF inv] I7D [OF inv] s_reg_failed(2-)
  show ?thesis unfolding s_reg_failed(1) by (auto simp add: I3_def split: if_splits sum.splits option.splits; blast)
next
  case (s_write a q m r c)
  from I7G_write [OF inv s_write(2)] I8sD [OF inv, THEN spec, of a] I3D [OF inv] I4D [OF inv] I5D [OF inv] I6D [OF inv] I7D [OF inv] s_write(2-)
  show ?thesis unfolding s_write(1) by (auto simp add: I3_def split: if_splits sum.splits option.splits; blast)
next
  case (s_remove a q e r m)
  from removeCall_pending [of q "mem s" r m] I7G_remove [OF inv s_remove(2)] I8sD [OF inv, THEN spec, of a] I3D [OF inv] I4D [OF inv] I5D [OF inv] I6D [OF inv] I7D [OF inv] s_remove(2-)
  show ?thesis unfolding s_remove(1) by (auto simp add: I3_def split: if_splits sum.splits option.splits; blast)
next
  case (s_done a b e m)
  from I6G [OF inv s_done(2)] have nb: "\<forall>k. pending (mem s) k \<noteq> Some b" by simp
  from call_done_pending [OF s_done(3)] have p: "pending m = pending (mem s)" by simp
  show ?thesis using s_done(1) p nb I3D [OF inv] by (auto simp add: I3_def)
next
  case (s_unlock a)
  from I8sD [OF inv, THEN spec, of a] I3D [OF inv] I4D [OF inv] I5D [OF inv] I6D [OF inv] I7D [OF inv] s_unlock(2-)
  show ?thesis unfolding s_unlock(1) by (auto simp add: I3_def split: if_splits sum.splits option.splits; blast)
next
  case (close r m)
  from Close_pending [of "mem s" r m] I3D [OF inv] I4D [OF inv] I5D [OF inv] I6D [OF inv] I7D [OF inv] close(2-)
  show ?thesis unfolding close(1) by (auto simp add: I3_def split: if_splits sum.splits option.splits; blast)
next
  case (consume ch b m)
  from chan_recv_pending [of ch "mem s" b m] I3D [OF inv] I4D [OF inv] I5D [OF inv] I6D [OF inv] I7D [OF inv] consume(2-)
  show ?thesis unfolding consume(1) by (auto simp add: I3_def split: if_splits sum.splits option.splits; blast)
qed

lemma step_I3r:
  assumes st: "step s s'" and inv: "client_inv s"
  shows "I3r s'"
  using st
proof cases
  case (r_header r c)
  from I2D [OF inv] I3D [OF inv] I3rD [OF inv] I4D [OF inv] I5D [OF inv] I6D [OF inv] I7D [OF inv] I8sD [OF inv] I8rD [OF inv] r_header(2-)
  show ?thesis unfolding r_header(1) by (auto simp add: I3r_def range_order_def split: if_splits sum.splits option.splits; blast)
next
  case (r_remove f r m)
  from removeCall_pending [of "h_Seq (f_header f)" "mem s" r m] I2D [OF inv] I3D [OF inv] I3rD [OF inv] I4D [OF inv] I5D [OF inv] I6D [OF inv] I7D [OF inv] I8sD [OF inv] I8rD [OF inv] r_remove(2-)
  show ?thesis unfolding r_remove(1) by (auto simp add: I3r_def range_order_def split: if_splits sum.splits option.splits; blast)
next
  case (r_orphan f)
  from I2D [OF inv] I3D [OF inv] I3rD [OF inv] I4D [OF inv] I5D [OF inv] I6D [OF inv] I7D [OF inv] I8sD [OF inv] I8rD [OF inv] r_orphan(2-)
  show ?thesis unfolding r_orphan(1) by (auto simp add: I3r_def range_order_def split: if_splits sum.splits option.splits; blast)
next
  case (r_remote_error f a)
  from I4G_switch [OF inv r_remote_error(2)] I2D [OF inv] I3D [OF inv] I3rD [OF inv] I4D [OF inv] I5D [OF inv] I6D [OF inv] I7D [OF inv] I8sD [OF inv] I8rD [OF inv] r_remote_error(2-)
  show ?thesis unfolding r_remote_error(1) by (auto simp add: I3r_def range_order_def split: if_splits sum.splits option.splits; blast)
next
  case (r_reply f a target)
  from I4G_switch [OF inv r_reply(2)] I2D [OF inv] I3D [OF inv] I3rD [OF inv] I4D [OF inv] I5D [OF inv] I6D [OF inv] I7D [OF inv] I8sD [OF inv] I8rD [OF inv] r_reply(2-)
  show ?thesis unfolding r_reply(1) by (auto simp add: I3r_def range_order_def split: if_splits sum.splits option.splits; blast)
next
  case (r_decode_failure f a target e)
  from I4G_switch [OF inv r_decode_failure(2)] I2D [OF inv] I3D [OF inv] I3rD [OF inv] I4D [OF inv] I5D [OF inv] I6D [OF inv] I7D [OF inv] I8sD [OF inv] I8rD [OF inv] r_decode_failure(2-)
  show ?thesis unfolding r_decode_failure(1) by (auto simp add: I3r_def range_order_def split: if_splits sum.splits option.splits; blast)
next
  case (r_done a err p m)
  from call_done_pending [of a "mem s" m] I4G_done [OF inv r_done(2)] I2D [OF inv] I3D [OF inv] I3rD [OF inv] I4D [OF inv] I5D [OF inv] I6D [OF inv] I7D [OF inv] I8sD [OF inv] I8rD [OF inv] r_done(2-)
  show ?thesis unfolding r_done(1) by (auto simp add: I3r_def range_order_def split: if_splits sum.splits option.splits; blast)
next
  case (r_lock_sending e)
  from I2D [OF inv] I3D [OF inv] I3rD [OF inv] I4D [OF inv] I5D [OF inv] I6D [OF inv] I7D [OF inv] I8sD [OF inv] I8rD [OF inv] r_lock_sending(2-)
  show ?thesis unfolding r_lock_sending(1) by (auto simp add: I3r_def range_order_def split: if_splits sum.splits option.splits; blast)
next
  case (r_lock_mu e ks)
  from I8rD [OF inv] I2D [OF inv] I3D [OF inv] I3rD [OF inv] I4D [OF inv] I5D [OF inv] I6D [OF inv] I7D [OF inv] I8sD [OF inv] I8rD [OF inv] r_lock_mu(2-)
  show ?thesis unfolding r_lock_mu(1) by (auto simp add: I3r_def range_order_def split: if_splits sum.splits option.splits; blast)
next
  case (r_range e k ks a m)
  from I3rD [OF inv] r_range(2) have d: "distinct (k # ks)"
    and u: "\<forall>k'\<in>set (k # ks). \<exists>b. pending (mem s) k' = Some b \<and> delivered s b = []"
    by blast+
  from call_done_pending [OF r_range(4)] have p: "pending m = pending (mem s)" by simp
  have "\<exists>b. pending m k' = Some b \<and> ((delivered s)(a := delivered s a @ [BulkTermination])) b = []"
    if k': "k' \<in> set ks" for k'
  proof -
    from u k' obtain b where b: "pending (mem s) k' = Some b" "delivered s b = []" by auto
    from d k' have "k' \<noteq> k" by auto
    with I2D [OF inv] b(1) r_range(3) have "b \<noteq> a" by blast
    with b p show ?thesis by auto
  qed
  with d r_range(1) show ?thesis by (simp add: I3r_def)
next
  case (r_range_end e)
  from I2D [OF inv] I3D [OF inv] I3rD [OF inv] I4D [OF inv] I5D [OF inv] I6D [OF inv] I7D [OF inv] I8sD [OF inv] I8rD [OF inv] r_range_end(2-)
  show ?thesis unfolding r_range_end(1) by (auto simp add: I3r_def range_order_def split: if_splits sum.splits option.splits; blast)
next
  case r_unlock_mu
  from I2D [OF inv] I3D [OF inv] I3rD [OF inv] I4D [OF inv] I5D [OF inv] I6D [OF inv] I7D [OF inv] I8sD [OF inv] I8rD [OF inv] r_unlock_mu(2-)
  show ?thesis unfolding r_unlock_mu(1) by (auto simp add: I3r_def range_order_def split: if_splits sum.splits option.splits; blast)
next
  case r_unlock_sending
  from I8rD [OF inv] I2D [OF inv] I3D [OF inv] I3rD [OF inv] I4D [OF inv] I5D [OF inv] I6D [OF inv] I7D [OF inv] I8sD [OF inv] I8rD [OF inv] r_unlock_sending(2-)
  show ?thesis unfolding r_unlock_sending(1) by (auto simp add: I3r_def range_order_def split: if_splits sum.splits option.splits; blast)
next
  case (s_lock a)
  from I5G_start [OF inv s_lock(2)] I2D [OF inv] I3D [OF inv] I3rD [OF inv] I4D [OF inv] I5D [OF inv] I6D [OF inv] I7D [OF inv] I8sD [OF inv] I8rD [OF inv] s_lock(2-)
  show ?thesis unfolding s_lock(1) by (auto simp add: I3r_def range_order_def split: if_splits sum.splits option.splits; blast)
next
  case (s_register a r m)
  have "receiver s \<noteq> R_Range e' ks'" for e' ks'
    using sender_locked_no_range [OF inv, of a] s_register(2) by simp
  then show ?thesis unfolding s_register(1) by (simp add: I3r_def)
next
  case (s_reg_failed a e m)
  have "receiver s \<noteq> R_Range e' ks'" for e' ks'
    using sender_locked_no_range [OF inv, of a] s_reg_failed(2) by simp
  then show ?thesis unfolding s_reg_failed(1) by (simp add: I3r_def)
next
  case (s_write a q m r c)
  have "receiver s \<noteq> R_Range e' ks'" for e' ks'
    using sender_locked_no_range [OF inv, of a] s_write(2) by simp
  then show ?thesis unfolding s_write(1) by (simp add: I3r_def)
next
  case (s_remove a q e r m)
  have "receiver s \<noteq> R_Range e' ks'" for e' ks'
    using sender_locked_no_range [OF inv, of a] s_remove(2) by simp
  then show ?thesis unfolding s_remove(1) by (simp add: I3r_def)
next
  case (s_done a b e m)
  have "receiver s \<noteq> R_Range e' ks'" for e' ks'
    using sender_locked_no_range [OF inv, of a] s_done(2) by simp
  then show ?thesis unfolding s_done(1) by (simp add: I3r_def)
next
  case (s_unlock a)
  have "receiver s \<noteq> R_Range e' ks'" for e' ks'
    using sender_locked_no_range [OF inv, of a] s_unlock(2) by simp
  then show ?thesis unfolding s_unlock(1) by (simp add: I3r_def)
next
  case (close r m)
  from Close_pending [of "mem s" r m] I2D [OF inv] I3D [OF inv] I3rD [OF inv] I4D [OF inv] I5D [OF inv] I6D [OF inv] I7D [OF inv] I8sD [OF inv] I8rD [OF inv] close(2-)
  show ?thesis unfolding close(1) by (auto simp add: I3r_def range_order_def split: if_splits sum.splits option.splits; blast)
next
  case (consume ch b m)
  from chan_recv_pending [of ch "mem s" b m] I2D [OF inv] I3D [OF inv] I3rD [OF inv] I4D [OF inv] I5D [OF inv] I6D [OF inv] I7D [OF inv] I8sD [OF inv] I8rD [OF inv] consume(2-)
  show ?thesis unfolding consume(1) by (auto simp add: I3r_def range_order_def split: if_splits sum.splits option.splits; blast)
qed

lemma step_I4:
  assumes st: "step s s'" and inv: "client_inv s"
  shows "I4 s'"
  using st
proof cases
  case (r_header r c)
  from I2D [OF inv] I3D [OF inv] I4D [OF inv] I5D [OF inv] I6D [OF inv] I7D [OF inv] r_header(2-)
  show ?thesis unfolding r_header(1) by (auto simp add: I4_def split: if_splits sum.splits option.splits; blast)
next
  case (r_remove f r m)
  from removeCall_pending [OF r_remove(4)]
  have r: "r = pending (mem s) (h_Seq (f_header f))"
    and p: "pending m = (pending (mem s))(h_Seq (f_header f) := None)"
    by simp_all
  show ?thesis
  proof (cases r)
    case None
    with r_remove show ?thesis by (simp add: I4_def)
  next
    case (Some b)
    with r have pb: "pending (mem s) (h_Seq (f_header f)) = Some b" by simp
    have nt: "\<not> terminating (receiver s)" using r_remove by simp
    have "delivered s b = []" using I3D [OF inv] nt pb by blast
    moreover have "\<forall>k. pending m k \<noteq> Some b" using I2D [OF inv] pb p by auto
    moreover have "\<not> early (senders s b)" using I5D [OF inv] pb by auto
    moreover have "\<not> s_holds (senders s b)"
      using I6D [OF inv] pb by (cases "senders s b") auto
    ultimately show ?thesis using r_remove Some by (simp add: I4_def)
  qed
next
  case (r_orphan f)
  from I2D [OF inv] I3D [OF inv] I4D [OF inv] I5D [OF inv] I6D [OF inv] I7D [OF inv] r_orphan(2-)
  show ?thesis unfolding r_orphan(1) by (auto simp add: I4_def split: if_splits sum.splits option.splits; blast)
next
  case (r_remote_error f a)
  from I4G_switch [OF inv r_remote_error(2)] I2D [OF inv] I3D [OF inv] I4D [OF inv] I5D [OF inv] I6D [OF inv] I7D [OF inv] r_remote_error(2-)
  show ?thesis unfolding r_remote_error(1) by (auto simp add: I4_def split: if_splits sum.splits option.splits; blast)
next
  case (r_reply f a target)
  from I4G_switch [OF inv r_reply(2)] I2D [OF inv] I3D [OF inv] I4D [OF inv] I5D [OF inv] I6D [OF inv] I7D [OF inv] r_reply(2-)
  show ?thesis unfolding r_reply(1) by (auto simp add: I4_def split: if_splits sum.splits option.splits; blast)
next
  case (r_decode_failure f a target e)
  from I4G_switch [OF inv r_decode_failure(2)] I2D [OF inv] I3D [OF inv] I4D [OF inv] I5D [OF inv] I6D [OF inv] I7D [OF inv] r_decode_failure(2-)
  show ?thesis unfolding r_decode_failure(1) by (auto simp add: I4_def split: if_splits sum.splits option.splits; blast)
next
  case (r_done a err p m)
  from call_done_pending [of a "mem s" m] I4G_done [OF inv r_done(2)] I2D [OF inv] I3D [OF inv] I4D [OF inv] I5D [OF inv] I6D [OF inv] I7D [OF inv] r_done(2-)
  show ?thesis unfolding r_done(1) by (auto simp add: I4_def split: if_splits sum.splits option.splits; blast)
next
  case (r_lock_sending e)
  from I2D [OF inv] I3D [OF inv] I4D [OF inv] I5D [OF inv] I6D [OF inv] I7D [OF inv] r_lock_sending(2-)
  show ?thesis unfolding r_lock_sending(1) by (auto simp add: I4_def split: if_splits sum.splits option.splits; blast)
next
  case (r_lock_mu e ks)
  from I8rD [OF inv] I2D [OF inv] I3D [OF inv] I4D [OF inv] I5D [OF inv] I6D [OF inv] I7D [OF inv] r_lock_mu(2-)
  show ?thesis unfolding r_lock_mu(1) by (auto simp add: I4_def split: if_splits sum.splits option.splits; blast)
next
  case (r_range e k ks a m)
  from call_done_pending [of a "set_Error a (Some e) (mem s)" m] I3rG [OF inv r_range(2)] I8rD [OF inv] I2D [OF inv] I3D [OF inv] I4D [OF inv] I5D [OF inv] I6D [OF inv] I7D [OF inv] r_range(2-)
  show ?thesis unfolding r_range(1) by (auto simp add: I4_def split: if_splits sum.splits option.splits; blast)
next
  case (r_range_end e)
  from I2D [OF inv] I3D [OF inv] I4D [OF inv] I5D [OF inv] I6D [OF inv] I7D [OF inv] r_range_end(2-)
  show ?thesis unfolding r_range_end(1) by (auto simp add: I4_def split: if_splits sum.splits option.splits; blast)
next
  case r_unlock_mu
  from I2D [OF inv] I3D [OF inv] I4D [OF inv] I5D [OF inv] I6D [OF inv] I7D [OF inv] r_unlock_mu(2-)
  show ?thesis unfolding r_unlock_mu(1) by (auto simp add: I4_def split: if_splits sum.splits option.splits; blast)
next
  case r_unlock_sending
  from I8rD [OF inv] I2D [OF inv] I3D [OF inv] I4D [OF inv] I5D [OF inv] I6D [OF inv] I7D [OF inv] r_unlock_sending(2-)
  show ?thesis unfolding r_unlock_sending(1) by (auto simp add: I4_def split: if_splits sum.splits option.splits; blast)
next
  case (s_lock a)
  from I5G_start [OF inv s_lock(2)] I2D [OF inv] I3D [OF inv] I4D [OF inv] I5D [OF inv] I6D [OF inv] I7D [OF inv] s_lock(2-)
  show ?thesis unfolding s_lock(1) by (auto simp add: I4_def split: if_splits sum.splits option.splits; blast)
next
  case (s_register a r m)
  from registerCall_pending [of a "mem s" r m] I5G_register [OF inv s_register(2)] I8sD [OF inv, THEN spec, of a] I2D [OF inv] I3D [OF inv] I4D [OF inv] I5D [OF inv] I6D [OF inv] I7D [OF inv] s_register(2-)
  show ?thesis unfolding s_register(1) by (auto simp add: I4_def split: if_splits sum.splits option.splits; blast)
next
  case (s_reg_failed a e m)
  from call_done_pending [of a "set_Error a (Some e) (mem s)" m] I5G_reg_failed [OF inv s_reg_failed(2)] I8sD [OF inv, THEN spec, of a] I2D [OF inv] I3D [OF inv] I4D [OF inv] I5D [OF inv] I6D [OF inv] I7D [OF inv] s_reg_failed(2-)
  show ?thesis unfolding s_reg_failed(1) by (auto simp add: I4_def split: if_splits sum.splits option.splits; blast)
next
  case (s_write a q m r c)
  from I7G_write [OF inv s_write(2)] I8sD [OF inv, THEN spec, of a] I2D [OF inv] I3D [OF inv] I4D [OF inv] I5D [OF inv] I6D [OF inv] I7D [OF inv] s_write(2-)
  show ?thesis unfolding s_write(1) by (auto simp add: I4_def split: if_splits sum.splits option.splits; blast)
next
  case (s_remove a q e r m)
  from removeCall_pending [of q "mem s" r m] I7G_remove [OF inv s_remove(2)] I8sD [OF inv, THEN spec, of a] I2D [OF inv] I3D [OF inv] I4D [OF inv] I5D [OF inv] I6D [OF inv] I7D [OF inv] s_remove(2-)
  show ?thesis unfolding s_remove(1) by (auto simp add: I4_def split: if_splits sum.splits option.splits; blast)
next
  case (s_done a b e m)
  from I6G [OF inv s_done(2)] have ab: "a = b" by simp
  from call_done_pending [OF s_done(3)] have p: "pending m = pending (mem s)" by simp
  have "\<not> r_holds (receiver s) b" using I4D [OF inv] s_done(2) ab by auto
  then show ?thesis unfolding s_done(1) using I4D [OF inv] p ab by (auto simp add: I4_def)
next
  case (s_unlock a)
  from I8sD [OF inv, THEN spec, of a] I2D [OF inv] I3D [OF inv] I4D [OF inv] I5D [OF inv] I6D [OF inv] I7D [OF inv] s_unlock(2-)
  show ?thesis unfolding s_unlock(1) by (auto simp add: I4_def split: if_splits sum.splits option.splits; blast)
next
  case (close r m)
  from Close_pending [of "mem s" r m] I2D [OF inv] I3D [OF inv] I4D [OF inv] I5D [OF inv] I6D [OF inv] I7D [OF inv] close(2-)
  show ?thesis unfolding close(1) by (auto simp add: I4_def split: if_splits sum.splits option.splits; blast)
next
  case (consume ch b m)
  from chan_recv_pending [of ch "mem s" b m] I2D [OF inv] I3D [OF inv] I4D [OF inv] I5D [OF inv] I6D [OF inv] I7D [OF inv] consume(2-)
  show ?thesis unfolding consume(1) by (auto simp add: I4_def split: if_splits sum.splits option.splits; blast)
qed

lemma step_I5:
  assumes st: "step s s'" and inv: "client_inv s"
  shows "I5 s'"
  using st
proof cases
  case (r_header r c)
  from I2D [OF inv] I3D [OF inv] I3rD [OF inv] I4D [OF inv] I5D [OF inv] I6D [OF inv] I7D [OF inv] I8sD [OF inv] r_header(2-)
  show ?thesis unfolding r_header(1) by (auto simp add: I5_def split: if_splits sum.splits option.splits; blast)
next
  case (r_remove f r m)
  from removeCall_pending [of "h_Seq (f_header f)" "mem s" r m] I2D [OF inv] I3D [OF inv] I3rD [OF inv] I4D [OF inv] I5D [OF inv] I6D [OF inv] I7D [OF inv] I8sD [OF inv] r_remove(2-)
  show ?thesis unfolding r_remove(1) by (auto simp add: I5_def split: if_splits sum.splits option.splits; blast)
next
  case (r_orphan f)
  from I2D [OF inv] I3D [OF inv] I3rD [OF inv] I4D [OF inv] I5D [OF inv] I6D [OF inv] I7D [OF inv] I8sD [OF inv] r_orphan(2-)
  show ?thesis unfolding r_orphan(1) by (auto simp add: I5_def split: if_splits sum.splits option.splits; blast)
next
  case (r_remote_error f a)
  from I4G_switch [OF inv r_remote_error(2)] I2D [OF inv] I3D [OF inv] I3rD [OF inv] I4D [OF inv] I5D [OF inv] I6D [OF inv] I7D [OF inv] I8sD [OF inv] r_remote_error(2-)
  show ?thesis unfolding r_remote_error(1) by (auto simp add: I5_def split: if_splits sum.splits option.splits; blast)
next
  case (r_reply f a target)
  from I4G_switch [OF inv r_reply(2)] I2D [OF inv] I3D [OF inv] I3rD [OF inv] I4D [OF inv] I5D [OF inv] I6D [OF inv] I7D [OF inv] I8sD [OF inv] r_reply(2-)
  show ?thesis unfolding r_reply(1) by (auto simp add: I5_def split: if_splits sum.splits option.splits; blast)
next
  case (r_decode_failure f a target e)
  from I4G_switch [OF inv r_decode_failure(2)] I2D [OF inv] I3D [OF inv] I3rD [OF inv] I4D [OF inv] I5D [OF inv] I6D [OF inv] I7D [OF inv] I8sD [OF inv] r_decode_failure(2-)
  show ?thesis unfolding r_decode_failure(1) by (auto simp add: I5_def split: if_splits sum.splits option.splits; blast)
next
  case (r_done a err p m)
  from call_done_pending [of a "mem s" m] I4G_done [OF inv r_done(2)] I2D [OF inv] I3D [OF inv] I3rD [OF inv] I4D [OF inv] I5D [OF inv] I6D [OF inv] I7D [OF inv] I8sD [OF inv] r_done(2-)
  show ?thesis unfolding r_done(1) by (auto simp add: I5_def split: if_splits sum.splits option.splits; blast)
next
  case (r_lock_sending e)
  from I2D [OF inv] I3D [OF inv] I3rD [OF inv] I4D [OF inv] I5D [OF inv] I6D [OF inv] I7D [OF inv] I8sD [OF inv] r_lock_sending(2-)
  show ?thesis unfolding r_lock_sending(1) by (auto simp add: I5_def split: if_splits sum.splits option.splits; blast)
next
  case (r_lock_mu e ks)
  from I8rD [OF inv] I2D [OF inv] I3D [OF inv] I3rD [OF inv] I4D [OF inv] I5D [OF inv] I6D [OF inv] I7D [OF inv] I8sD [OF inv] r_lock_mu(2-)
  show ?thesis unfolding r_lock_mu(1) by (auto simp add: I5_def split: if_splits sum.splits option.splits; blast)
next
  case (r_range e k ks a m)
  from call_done_pending [of a "set_Error a (Some e) (mem s)" m] I3rG [OF inv r_range(2)] I8rD [OF inv] I2D [OF inv] I3D [OF inv] I3rD [OF inv] I4D [OF inv] I5D [OF inv] I6D [OF inv] I7D [OF inv] I8sD [OF inv] r_range(2-)
  show ?thesis unfolding r_range(1) by (auto simp add: I5_def split: if_splits sum.splits option.splits; blast)
next
  case (r_range_end e)
  from I2D [OF inv] I3D [OF inv] I3rD [OF inv] I4D [OF inv] I5D [OF inv] I6D [OF inv] I7D [OF inv] I8sD [OF inv] r_range_end(2-)
  show ?thesis unfolding r_range_end(1) by (auto simp add: I5_def split: if_splits sum.splits option.splits; blast)
next
  case r_unlock_mu
  from I2D [OF inv] I3D [OF inv] I3rD [OF inv] I4D [OF inv] I5D [OF inv] I6D [OF inv] I7D [OF inv] I8sD [OF inv] r_unlock_mu(2-)
  show ?thesis unfolding r_unlock_mu(1) by (auto simp add: I5_def split: if_splits sum.splits option.splits; blast)
next
  case r_unlock_sending
  from I8rD [OF inv] I2D [OF inv] I3D [OF inv] I3rD [OF inv] I4D [OF inv] I5D [OF inv] I6D [OF inv] I7D [OF inv] I8sD [OF inv] r_unlock_sending(2-)
  show ?thesis unfolding r_unlock_sending(1) by (auto simp add: I5_def split: if_splits sum.splits option.splits; blast)
next
  case (s_lock a)
  from I5G_start [OF inv s_lock(2)] I2D [OF inv] I3D [OF inv] I3rD [OF inv] I4D [OF inv] I5D [OF inv] I6D [OF inv] I7D [OF inv] I8sD [OF inv] s_lock(2-)
  show ?thesis unfolding s_lock(1) by (auto simp add: I5_def split: if_splits sum.splits option.splits; blast)
next
  case (s_register a r m)
  from registerCall_pending [of a "mem s" r m] I5G_register [OF inv s_register(2)] I8sD [OF inv, THEN spec, of a] I2D [OF inv] I3D [OF inv] I3rD [OF inv] I4D [OF inv] I5D [OF inv] I6D [OF inv] I7D [OF inv] I8sD [OF inv] s_register(2-)
  show ?thesis unfolding s_register(1) by (auto simp add: I5_def split: if_splits sum.splits option.splits; blast)
next
  case (s_reg_failed a e m)
  from call_done_pending [of a "set_Error a (Some e) (mem s)" m] I5G_reg_failed [OF inv s_reg_failed(2)] I8sD [OF inv, THEN spec, of a] I2D [OF inv] I3D [OF inv] I3rD [OF inv] I4D [OF inv] I5D [OF inv] I6D [OF inv] I7D [OF inv] I8sD [OF inv] s_reg_failed(2-)
  show ?thesis unfolding s_reg_failed(1) by (auto simp add: I5_def split: if_splits sum.splits option.splits; blast)
next
  case (s_write a q m r c)
  from I7G_write [OF inv s_write(2)] I8sD [OF inv, THEN spec, of a] I2D [OF inv] I3D [OF inv] I3rD [OF inv] I4D [OF inv] I5D [OF inv] I6D [OF inv] I7D [OF inv] I8sD [OF inv] s_write(2-)
  show ?thesis unfolding s_write(1) by (auto simp add: I5_def split: if_splits sum.splits option.splits; blast)
next
  case (s_remove a q e r m)
  from removeCall_pending [of q "mem s" r m] I7G_remove [OF inv s_remove(2)] I8sD [OF inv, THEN spec, of a] I2D [OF inv] I3D [OF inv] I3rD [OF inv] I4D [OF inv] I5D [OF inv] I6D [OF inv] I7D [OF inv] I8sD [OF inv] s_remove(2-)
  show ?thesis unfolding s_remove(1) by (auto simp add: I5_def split: if_splits sum.splits option.splits; blast)
next
  case (s_done a b e m)
  from call_done_pending [of b "set_Error b (Some e) (mem s)" m] I6G [OF inv s_done(2)] I8sD [OF inv, THEN spec, of a] I2D [OF inv] I3D [OF inv] I3rD [OF inv] I4D [OF inv] I5D [OF inv] I6D [OF inv] I7D [OF inv] I8sD [OF inv] s_done(2-)
  show ?thesis unfolding s_done(1) by (auto simp add: I5_def split: if_splits sum.splits option.splits; blast)
next
  case (s_unlock a)
  from I8sD [OF inv, THEN spec, of a] I2D [OF inv] I3D [OF inv] I3rD [OF inv] I4D [OF inv] I5D [OF inv] I6D [OF inv] I7D [OF inv] I8sD [OF inv] s_unlock(2-)
  show ?thesis unfolding s_unlock(1) by (auto simp add: I5_def split: if_splits sum.splits option.splits; blast)
next
  case (close r m)
  from Close_pending [of "mem s" r m] I2D [OF inv] I3D [OF inv] I3rD [OF inv] I4D [OF inv] I5D [OF inv] I6D [OF inv] I7D [OF inv] I8sD [OF inv] close(2-)
  show ?thesis unfolding close(1) by (auto simp add: I5_def split: if_splits sum.splits option.splits; blast)
next
  case (consume ch b m)
  from chan_recv_pending [of ch "mem s" b m] I2D [OF inv] I3D [OF inv] I3rD [OF inv] I4D [OF inv] I5D [OF inv] I6D [OF inv] I7D [OF inv] I8sD [OF inv] consume(2-)
  show ?thesis unfolding consume(1) by (auto simp add: I5_def split: if_splits sum.splits option.splits; blast)
qed

lemma step_I6:
  assumes st: "step s s'" and inv: "client_inv s"
  shows "I6 s'"
  using st
proof cases
  case (r_header r c)
  from I2D [OF inv] I3D [OF inv] I3rD [OF inv] I4D [OF inv] I5D [OF inv] I6D [OF inv] I7D [OF inv] I8sD [OF inv] r_header(2-)
  show ?thesis unfolding r_header(1) by (auto simp add: I6_def split: if_splits sum.splits option.splits; blast)
next
  case (r_remove f r m)
  from removeCall_pending [of "h_Seq (f_header f)" "mem s" r m] I2D [OF inv] I3D [OF inv] I3rD [OF inv] I4D [OF inv] I5D [OF inv] I6D [OF inv] I7D [OF inv] I8sD [OF inv] r_remove(2-)
  show ?thesis unfolding r_remove(1) by (auto simp add: I6_def split: if_splits sum.splits option.splits; blast)
next
  case (r_orphan f)
  from I2D [OF inv] I3D [OF inv] I3rD [OF inv] I4D [OF inv] I5D [OF inv] I6D [OF inv] I7D [OF inv] I8sD [OF inv] r_orphan(2-)
  show ?thesis unfolding r_orphan(1) by (auto simp add: I6_def split: if_splits sum.splits option.splits; blast)
next
  case (r_remote_error f a)
  from I4G_switch [OF inv r_remote_error(2)] I2D [OF inv] I3D [OF inv] I3rD [OF inv] I4D [OF inv] I5D [OF inv] I6D [OF inv] I7D [OF inv] I8sD [OF inv] r_remote_error(2-)
  show ?thesis unfolding r_remote_error(1) by (auto simp add: I6_def split: if_splits sum.splits option.splits; blast)
next
  case (r_reply f a target)
  from I4G_switch [OF inv r_reply(2)] I2D [OF inv] I3D [OF inv] I3rD [OF inv] I4D [OF inv] I5D [OF inv] I6D [OF inv] I7D [OF inv] I8sD [OF inv] r_reply(2-)
  show ?thesis unfolding r_reply(1) by (auto simp add: I6_def split: if_splits sum.splits option.splits; blast)
next
  case (r_decode_failure f a target e)
  from I4G_switch [OF inv r_decode_failure(2)] I2D [OF inv] I3D [OF inv] I3rD [OF inv] I4D [OF inv] I5D [OF inv] I6D [OF inv] I7D [OF inv] I8sD [OF inv] r_decode_failure(2-)
  show ?thesis unfolding r_decode_failure(1) by (auto simp add: I6_def split: if_splits sum.splits option.splits; blast)
next
  case (r_done a err p m)
  from I4G_done [OF inv r_done(2)] have nh: "\<not> s_holds (senders s a)" by simp
  from call_done_pending [OF r_done(3)] have p: "pending m = pending (mem s)" by simp
  have "b = c \<and> delivered s c = [] \<and> (\<forall>k. pending (mem s) k \<noteq> Some c) \<and> c \<noteq> a"
    if "senders s b = S_Done c e" for b c e
  proof -
    from I6G [OF inv that]
    have *: "b = c" "delivered s c = []" "\<forall>k. pending (mem s) k \<noteq> Some c"
      by simp_all
    from that * nh have "c \<noteq> a" by auto
    with * show ?thesis by simp
  qed
  then show ?thesis unfolding r_done(1) using p by (auto simp add: I6_def)
next
  case (r_lock_sending e)
  from I2D [OF inv] I3D [OF inv] I3rD [OF inv] I4D [OF inv] I5D [OF inv] I6D [OF inv] I7D [OF inv] I8sD [OF inv] r_lock_sending(2-)
  show ?thesis unfolding r_lock_sending(1) by (auto simp add: I6_def split: if_splits sum.splits option.splits; blast)
next
  case (r_lock_mu e ks)
  from I8rD [OF inv] I2D [OF inv] I3D [OF inv] I3rD [OF inv] I4D [OF inv] I5D [OF inv] I6D [OF inv] I7D [OF inv] I8sD [OF inv] r_lock_mu(2-)
  show ?thesis unfolding r_lock_mu(1) by (auto simp add: I6_def split: if_splits sum.splits option.splits; blast)
next
  case (r_range e k ks a m)
  from call_done_pending [of a "set_Error a (Some e) (mem s)" m] I3rG [OF inv r_range(2)] I8rD [OF inv] I2D [OF inv] I3D [OF inv] I3rD [OF inv] I4D [OF inv] I5D [OF inv] I6D [OF inv] I7D [OF inv] I8sD [OF inv] r_range(2-)
  show ?thesis unfolding r_range(1) by (auto simp add: I6_def split: if_splits sum.splits option.splits; blast)
next
  case (r_range_end e)
  from I2D [OF inv] I3D [OF inv] I3rD [OF inv] I4D [OF inv] I5D [OF inv] I6D [OF inv] I7D [OF inv] I8sD [OF inv] r_range_end(2-)
  show ?thesis unfolding r_range_end(1) by (auto simp add: I6_def split: if_splits sum.splits option.splits; blast)
next
  case r_unlock_mu
  from I2D [OF inv] I3D [OF inv] I3rD [OF inv] I4D [OF inv] I5D [OF inv] I6D [OF inv] I7D [OF inv] I8sD [OF inv] r_unlock_mu(2-)
  show ?thesis unfolding r_unlock_mu(1) by (auto simp add: I6_def split: if_splits sum.splits option.splits; blast)
next
  case r_unlock_sending
  from I8rD [OF inv] I2D [OF inv] I3D [OF inv] I3rD [OF inv] I4D [OF inv] I5D [OF inv] I6D [OF inv] I7D [OF inv] I8sD [OF inv] r_unlock_sending(2-)
  show ?thesis unfolding r_unlock_sending(1) by (auto simp add: I6_def split: if_splits sum.splits option.splits; blast)
next
  case (s_lock a)
  from I5G_start [OF inv s_lock(2)] I2D [OF inv] I3D [OF inv] I3rD [OF inv] I4D [OF inv] I5D [OF inv] I6D [OF inv] I7D [OF inv] I8sD [OF inv] s_lock(2-)
  show ?thesis unfolding s_lock(1) by (auto simp add: I6_def split: if_splits sum.splits option.splits; blast)
next
  case (s_register a r m)
  from registerCall_pending [of a "mem s" r m] I5G_register [OF inv s_register(2)] I8sD [OF inv, THEN spec, of a] I2D [OF inv] I3D [OF inv] I3rD [OF inv] I4D [OF inv] I5D [OF inv] I6D [OF inv] I7D [OF inv] I8sD [OF inv] s_register(2-)
  show ?thesis unfolding s_register(1) by (auto simp add: I6_def split: if_splits sum.splits option.splits; blast)
next
  case (s_reg_failed a e m)
  from call_done_pending [of a "set_Error a (Some e) (mem s)" m] I5G_reg_failed [OF inv s_reg_failed(2)] I8sD [OF inv, THEN spec, of a] I2D [OF inv] I3D [OF inv] I3rD [OF inv] I4D [OF inv] I5D [OF inv] I6D [OF inv] I7D [OF inv] I8sD [OF inv] s_reg_failed(2-)
  show ?thesis unfolding s_reg_failed(1) by (auto simp add: I6_def split: if_splits sum.splits option.splits; blast)
next
  case (s_write a q m r c)
  from I7G_write [OF inv s_write(2)] I8sD [OF inv, THEN spec, of a] I2D [OF inv] I3D [OF inv] I3rD [OF inv] I4D [OF inv] I5D [OF inv] I6D [OF inv] I7D [OF inv] I8sD [OF inv] s_write(2-)
  show ?thesis unfolding s_write(1) by (auto simp add: I6_def split: if_splits sum.splits option.splits; blast)
next
  case (s_remove a q e r m)
  from removeCall_pending [of q "mem s" r m] I7G_remove [OF inv s_remove(2)] I8sD [OF inv, THEN spec, of a] I2D [OF inv] I3D [OF inv] I3rD [OF inv] I4D [OF inv] I5D [OF inv] I6D [OF inv] I7D [OF inv] I8sD [OF inv] s_remove(2-)
  show ?thesis unfolding s_remove(1) by (auto simp add: I6_def split: if_splits sum.splits option.splits; blast)
next
  case (s_done a b e m)
  from call_done_pending [of b "set_Error b (Some e) (mem s)" m] I6G [OF inv s_done(2)] I8sD [OF inv, THEN spec, of a] I2D [OF inv] I3D [OF inv] I3rD [OF inv] I4D [OF inv] I5D [OF inv] I6D [OF inv] I7D [OF inv] I8sD [OF inv] s_done(2-)
  show ?thesis unfolding s_done(1) by (auto simp add: I6_def split: if_splits sum.splits option.splits; blast)
next
  case (s_unlock a)
  from I8sD [OF inv, THEN spec, of a] I2D [OF inv] I3D [OF inv] I3rD [OF inv] I4D [OF inv] I5D [OF inv] I6D [OF inv] I7D [OF inv] I8sD [OF inv] s_unlock(2-)
  show ?thesis unfolding s_unlock(1) by (auto simp add: I6_def split: if_splits sum.splits option.splits; blast)
next
  case (close r m)
  from Close_pending [of "mem s" r m] I2D [OF inv] I3D [OF inv] I3rD [OF inv] I4D [OF inv] I5D [OF inv] I6D [OF inv] I7D [OF inv] I8sD [OF inv] close(2-)
  show ?thesis unfolding close(1) by (auto simp add: I6_def split: if_splits sum.splits option.splits; blast)
next
  case (consume ch b m)
  from chan_recv_pending [of ch "mem s" b m] I2D [OF inv] I3D [OF inv] I3rD [OF inv] I4D [OF inv] I5D [OF inv] I6D [OF inv] I7D [OF inv] I8sD [OF inv] consume(2-)
  show ?thesis unfolding consume(1) by (auto simp add: I6_def split: if_splits sum.splits option.splits; blast)
qed

lemma step_I7:
  assumes st: "step s s'" and inv: "client_inv s"
  shows "I7 s'"
  using st
proof cases
  case (r_header r c)
  from I7D [OF inv] I8sD [OF inv] I8rD [OF inv] I9D [OF inv] r_header(2-)
  show ?thesis unfolding r_header(1) by (auto simp add: I7_def split: if_splits sum.splits option.splits; blast)
next
  case (r_remove f r m)
  from removeCall_pending [of "h_Seq (f_header f)" "mem s" r m] I7D [OF inv] I8sD [OF inv] I8rD [OF inv] I9D [OF inv] r_remove(2-)
  show ?thesis unfolding r_remove(1) by (auto simp add: I7_def split: if_splits sum.splits option.splits; blast)
next
  case (r_orphan f)
  from I7D [OF inv] I8sD [OF inv] I8rD [OF inv] I9D [OF inv] r_orphan(2-)
  show ?thesis unfolding r_orphan(1) by (auto simp add: I7_def split: if_splits sum.splits option.splits; blast)
next
  case (r_remote_error f a)
  from I4G_switch [OF inv r_remote_error(2)] I7D [OF inv] I8sD [OF inv] I8rD [OF inv] I9D [OF inv] r_remote_error(2-)
  show ?thesis unfolding r_remote_error(1) by (auto simp add: I7_def split: if_splits sum.splits option.splits; blast)
next
  case (r_reply f a target)
  from I4G_switch [OF inv r_reply(2)] I7D [OF inv] I8sD [OF inv] I8rD [OF inv] I9D [OF inv] r_reply(2-)
  show ?thesis unfolding r_reply(1) by (auto simp add: I7_def split: if_splits sum.splits option.splits; blast)
next
  case (r_decode_failure f a target e)
  from I4G_switch [OF inv r_decode_failure(2)] I7D [OF inv] I8sD [OF inv] I8rD [OF inv] I9D [OF inv] r_decode_failure(2-)
  show ?thesis unfolding r_decode_failure(1) by (auto simp add: I7_def split: if_splits sum.splits option.splits; blast)
next
  case (r_done a err p m)
  from call_done_pending [of a "mem s" m] I4G_done [OF inv r_done(2)] I7D [OF inv] I8sD [OF inv] I8rD [OF inv] I9D [OF inv] r_done(2-)
  show ?thesis unfolding r_done(1) by (auto simp add: I7_def split: if_splits sum.splits option.splits; blast)
next
  case (r_lock_sending e)
  from I7D [OF inv] I8sD [OF inv] I8rD [OF inv] I9D [OF inv] r_lock_sending(2-)
  show ?thesis unfolding r_lock_sending(1) by (auto simp add: I7_def split: if_splits sum.splits option.splits; blast)
next
  case (r_lock_mu e ks)
  have "sending s = Some Receiver" using I8rD [OF inv] r_lock_mu(2) by simp
  then have "\<not> s_locked (senders s a)" for a using I8sD [OF inv] by auto
  then have "\<not> registered (senders s a) q" for a q using registered_locked by blast
  then show ?thesis unfolding r_lock_mu(1) by (simp add: I7_def)
next
  case (r_range e k ks a m)
  from call_done_pending [of a "set_Error a (Some e) (mem s)" m] I3rG [OF inv r_range(2)] I8rD [OF inv] I7D [OF inv] I8sD [OF inv] I8rD [OF inv] I9D [OF inv] r_range(2-)
  show ?thesis unfolding r_range(1) by (auto simp add: I7_def split: if_splits sum.splits option.splits; blast)
next
  case (r_range_end e)
  from I7D [OF inv] I8sD [OF inv] I8rD [OF inv] I9D [OF inv] r_range_end(2-)
  show ?thesis unfolding r_range_end(1) by (auto simp add: I7_def split: if_splits sum.splits option.splits; blast)
next
  case r_unlock_mu
  from I7D [OF inv] I8sD [OF inv] I8rD [OF inv] I9D [OF inv] r_unlock_mu(2-)
  show ?thesis unfolding r_unlock_mu(1) by (auto simp add: I7_def split: if_splits sum.splits option.splits; blast)
next
  case r_unlock_sending
  from I8rD [OF inv] I7D [OF inv] I8sD [OF inv] I8rD [OF inv] I9D [OF inv] r_unlock_sending(2-)
  show ?thesis unfolding r_unlock_sending(1) by (auto simp add: I7_def split: if_splits sum.splits option.splits; blast)
next
  case (s_lock a)
  from I5G_start [OF inv s_lock(2)] I7D [OF inv] I8sD [OF inv] I8rD [OF inv] I9D [OF inv] s_lock(2-)
  show ?thesis unfolding s_lock(1) by (auto simp add: I7_def split: if_splits sum.splits option.splits; blast)
next
  case (s_register a r m)
  have nr: "\<not> registered (senders s c) q" if "c \<noteq> a" for c q
    using other_not_registered [OF inv _ that, of q] s_register(2) by simp
  show ?thesis
  proof (cases r)
    case (Inl x)
    with nr show ?thesis unfolding s_register(1) by (auto simp add: I7_def)
  next
    case (Inr x)
    with registerCall_pending [OF s_register(4)]
    have x: "x = seq (mem s)" and ns: "\<not> shutdown (mem s)"
      and p: "pending m = (pending (mem s))(seq (mem s) \<mapsto> a)"
      by auto
    from ns I9D [OF inv] have "\<not> terminating (receiver s)" by auto
    with nr Inr x p show ?thesis unfolding s_register(1) by (auto simp add: I7_def)
  qed
next
  case (s_reg_failed a e m)
  from call_done_pending [of a "set_Error a (Some e) (mem s)" m] I5G_reg_failed [OF inv s_reg_failed(2)] I8sD [OF inv, THEN spec, of a] I7D [OF inv] I8sD [OF inv] I8rD [OF inv] I9D [OF inv] s_reg_failed(2-)
  show ?thesis unfolding s_reg_failed(1) by (auto simp add: I7_def split: if_splits sum.splits option.splits; blast)
next
  case (s_write a q m r c)
  from I7G_write [OF inv s_write(2)] I8sD [OF inv, THEN spec, of a] I7D [OF inv] I8sD [OF inv] I8rD [OF inv] I9D [OF inv] s_write(2-)
  show ?thesis unfolding s_write(1) by (auto simp add: I7_def split: if_splits sum.splits option.splits; blast)
next
  case (s_remove a q e r m)
  from removeCall_pending [of q "mem s" r m] I7G_remove [OF inv s_remove(2)] I8sD [OF inv, THEN spec, of a] I7D [OF inv] I8sD [OF inv] I8rD [OF inv] I9D [OF inv] s_remove(2-)
  show ?thesis unfolding s_remove(1) by (auto simp add: I7_def split: if_splits sum.splits option.splits; blast)
next
  case (s_done a b e m)
  from call_done_pending [of b "set_Error b (Some e) (mem s)" m] I6G [OF inv s_done(2)] I8sD [OF inv, THEN spec, of a] I7D [OF inv] I8sD [OF inv] I8rD [OF inv] I9D [OF inv] s_done(2-)
  show ?thesis unfolding s_done(1) by (auto simp add: I7_def split: if_splits sum.splits option.splits; blast)
next
  case (s_unlock a)
  from I8sD [OF inv, THEN spec, of a] I7D [OF inv] I8sD [OF inv] I8rD [OF inv] I9D [OF inv] s_unlock(2-)
  show ?thesis unfolding s_unlock(1) by (auto simp add: I7_def split: if_splits sum.splits option.splits; blast)
next
  case (close r m)
  from Close_pending [of "mem s" r m] I7D [OF inv] I8sD [OF inv] I8rD [OF inv] I9D [OF inv] close(2-)
  show ?thesis unfolding close(1) by (auto simp add: I7_def split: if_splits sum.splits option.splits; blast)
next
  case (consume ch b m)
  from chan_recv_pending [of ch "mem s" b m] I7D [OF inv] I8sD [OF inv] I8rD [OF inv] I9D [OF inv] consume(2-)
  show ?thesis unfolding consume(1) by (auto simp add: I7_def split: if_splits sum.splits option.splits; blast)
qed

lemma step_I8:
  assumes st: "step s s'" and inv: "client_inv s"
  shows "I8 s'"
  using st
proof cases
  case (r_header r c)
  from I8sD [OF inv] I8rD [OF inv] r_header(2-)
  show ?thesis unfolding r_header(1) by (auto simp add: I8_def split: if_splits sum.splits option.splits; blast)
next
  case (r_remove f r m)
  from removeCall_pending [of "h_Seq (f_header f)" "mem s" r m] I8sD [OF inv] I8rD [OF inv] r_remove(2-)
  show ?thesis unfolding r_remove(1) by (auto simp add: I8_def split: if_splits sum.splits option.splits; blast)
next
  case (r_orphan f)
  from I8sD [OF inv] I8rD [OF inv] r_orphan(2-)
  show ?thesis unfolding r_orphan(1) by (auto simp add: I8_def split: if_splits sum.splits option.splits; blast)
next
  case (r_remote_error f a)
  from I4G_switch [OF inv r_remote_error(2)] I8sD [OF inv] I8rD [OF inv] r_remote_error(2-)
  show ?thesis unfolding r_remote_error(1) by (auto simp add: I8_def split: if_splits sum.splits option.splits; blast)
next
  case (r_reply f a target)
  from I4G_switch [OF inv r_reply(2)] I8sD [OF inv] I8rD [OF inv] r_reply(2-)
  show ?thesis unfolding r_reply(1) by (auto simp add: I8_def split: if_splits sum.splits option.splits; blast)
next
  case (r_decode_failure f a target e)
  from I4G_switch [OF inv r_decode_failure(2)] I8sD [OF inv] I8rD [OF inv] r_decode_failure(2-)
  show ?thesis unfolding r_decode_failure(1) by (auto simp add: I8_def split: if_splits sum.splits option.splits; blast)
next
  case (r_done a err p m)
  from call_done_pending [of a "mem s" m] I4G_done [OF inv r_done(2)] I8sD [OF inv] I8rD [OF inv] r_done(2-)
  show ?thesis unfolding r_done(1) by (auto simp add: I8_def split: if_splits sum.splits option.splits; blast)
next
  case (r_lock_sending e)
  from I8sD [OF inv] I8rD [OF inv] r_lock_sending(2-)
  show ?thesis unfolding r_lock_sending(1) by (auto simp add: I8_def split: if_splits sum.splits option.splits; blast)
next
  case (r_lock_mu e ks)
  from I8rD [OF inv] I8sD [OF inv] I8rD [OF inv] r_lock_mu(2-)
  show ?thesis unfolding r_lock_mu(1) by (auto simp add: I8_def split: if_splits sum.splits option.splits; blast)
next
  case (r_range e k ks a m)
  from call_done_pending [of a "set_Error a (Some e) (mem s)" m] I3rG [OF inv r_range(2)] I8rD [OF inv] I8sD [OF inv] I8rD [OF inv] r_range(2-)
  show ?thesis unfolding r_range(1) by (auto simp add: I8_def split: if_splits sum.splits option.splits; blast)
next
  case (r_range_end e)
  from I8sD [OF inv] I8rD [OF inv] r_range_end(2-)
  show ?thesis unfolding r_range_end(1) by (auto simp add: I8_def split: if_splits sum.splits option.splits; blast)
next
  case r_unlock_mu
  from I8sD [OF inv] I8rD [OF inv] r_unlock_mu(2-)
  show ?thesis unfolding r_unlock_mu(1) by (auto simp add: I8_def split: if_splits sum.splits option.splits; blast)
next
  case r_unlock_sending
  from I8rD [OF inv] I8sD [OF inv] I8rD [OF inv] r_unlock_sending(2-)
  show ?thesis unfolding r_unlock_sending(1) by (auto simp add: I8_def split: if_splits sum.splits option.splits; blast)
next
  case (s_lock a)
  from I5G_start [OF inv s_lock(2)] I8sD [OF inv] I8rD [OF inv] s_lock(2-)
  show ?thesis unfolding s_lock(1) by (auto simp add: I8_def split: if_splits sum.splits option.splits; blast)
next
  case (s_register a r m)
  from registerCall_pending [of a "mem s" r m] I5G_register [OF inv s_register(2)] I8sD [OF inv, THEN spec, of a] I8sD [OF inv] I8rD [OF inv] s_register(2-)
  show ?thesis unfolding s_register(1) by (auto simp add: I8_def split: if_splits sum.splits option.splits; blast)
next
  case (s_reg_failed a e m)
  from call_done_pending [of a "set_Error a (Some e) (mem s)" m] I5G_reg_failed [OF inv s_reg_failed(2)] I8sD [OF inv, THEN spec, of a] I8sD [OF inv] I8rD [OF inv] s_reg_failed(2-)
  show ?thesis unfolding s_reg_failed(1) by (auto simp add: I8_def split: if_splits sum.splits option.splits; blast)
next
  case (s_write a q m r c)
  from I7G_write [OF inv s_write(2)] I8sD [OF inv, THEN spec, of a] I8sD [OF inv] I8rD [OF inv] s_write(2-)
  show ?thesis unfolding s_write(1) by (auto simp add: I8_def split: if_splits sum.splits option.splits; blast)
next
  case (s_remove a q e r m)
  from removeCall_pending [of q "mem s" r m] I7G_remove [OF inv s_remove(2)] I8sD [OF inv, THEN spec, of a] I8sD [OF inv] I8rD [OF inv] s_remove(2-)
  show ?thesis unfolding s_remove(1) by (auto simp add: I8_def split: if_splits sum.splits option.splits; blast)
next
  case (s_done a b e m)
  from call_done_pending [of b "set_Error b (Some e) (mem s)" m] I6G [OF inv s_done(2)] I8sD [OF inv, THEN spec, of a] I8sD [OF inv] I8rD [OF inv] s_done(2-)
  show ?thesis unfolding s_done(1) by (auto simp add: I8_def split: if_splits sum.splits option.splits; blast)
next
  case (s_unlock a)
  have la: "sending s = Some (Sender a)"
    using I8sD [OF inv, THEN spec, of a] s_unlock(2) by simp
  have "\<not> s_locked (senders s b)" if "b \<noteq> a" for b
    using I8sD [OF inv] la that by auto
  moreover have "\<not> r_locked (receiver s)" using I8rD [OF inv] la by auto
  ultimately show ?thesis unfolding s_unlock(1) by (auto simp add: I8_def)
next
  case (close r m)
  from Close_pending [of "mem s" r m] I8sD [OF inv] I8rD [OF inv] close(2-)
  show ?thesis unfolding close(1) by (auto simp add: I8_def split: if_splits sum.splits option.splits; blast)
next
  case (consume ch b m)
  from chan_recv_pending [of ch "mem s" b m] I8sD [OF inv] I8rD [OF inv] consume(2-)
  show ?thesis unfolding consume(1) by (auto simp add: I8_def split: if_splits sum.splits option.splits; blast)
qed

lemma step_I9:
  assumes st: "step s s'" and inv: "client_inv s"
  shows "I9 s'"
  using st
proof cases
  case (r_header r c)
  from I9D [OF inv] r_header(2-)
  show ?thesis unfolding r_header(1) by (auto simp add: I9_def split: if_splits sum.splits option.splits; blast)
next
  case (r_remove f r m)
  from removeCall_frame [of "h_Seq (f_header f)" "mem s" r m] I9D [OF inv] r_remove(2-)
  show ?thesis unfolding r_remove(1) by (auto simp add: I9_def split: if_splits sum.splits option.splits; blast)
next
  case (r_orphan f)
  from I9D [OF inv] r_orphan(2-)
  show ?thesis unfolding r_orphan(1) by (auto simp add: I9_def split: if_splits sum.splits option.splits; blast)
next
  case (r_remote_error f a)
  from I9D [OF inv] r_remote_error(2-)
  show ?thesis unfolding r_remote_error(1) by (auto simp add: I9_def split: if_splits sum.splits option.splits; blast)
next
  case (r_reply f a target)
  from I9D [OF inv] r_reply(2-)
  show ?thesis unfolding r_reply(1) by (auto simp add: I9_def split: if_splits sum.splits option.splits; blast)
next
  case (r_decode_failure f a target e)
  from I9D [OF inv] r_decode_failure(2-)
  show ?thesis unfolding r_decode_failure(1) by (auto simp add: I9_def split: if_splits sum.splits option.splits; blast)
next
  case (r_done a err p m)
  from call_done_frame [of a "mem s" m] I9D [OF inv] r_done(2-)
  show ?thesis unfolding r_done(1) by (auto simp add: I9_def split: if_splits sum.splits option.splits; blast)
next
  case (r_lock_sending e)
  from I9D [OF inv] r_lock_sending(2-)
  show ?thesis unfolding r_lock_sending(1) by (auto simp add: I9_def split: if_splits sum.splits option.splits; blast)
next
  case (r_lock_mu e ks)
  from I9D [OF inv] r_lock_mu(2-)
  show ?thesis unfolding r_lock_mu(1) by (auto simp add: I9_def split: if_splits sum.splits option.splits; blast)
next
  case (r_range e k ks a m)
  from call_done_frame [of a "set_Error a (Some e) (mem s)" m] I9D [OF inv] r_range(2-)
  show ?thesis unfolding r_range(1) by (auto simp add: I9_def split: if_splits sum.splits option.splits; blast)
next
  case (r_range_end e)
  from I9D [OF inv] r_range_end(2-)
  show ?thesis unfolding r_range_end(1) by (auto simp add: I9_def split: if_splits sum.splits option.splits; blast)
next
  case r_unlock_mu
  from I9D [OF inv] r_unlock_mu(2-)
  show ?thesis unfolding r_unlock_mu(1) by (auto simp add: I9_def split: if_splits sum.splits option.splits; blast)
next
  case r_unlock_sending
  from I9D [OF inv] r_unlock_sending(2-)
  show ?thesis unfolding r_unlock_sending(1) by (auto simp add: I9_def split: if_splits sum.splits option.splits; blast)
next
  case (s_lock a)
  from I9D [OF inv] s_lock(2-)
  show ?thesis unfolding s_lock(1) by (auto simp add: I9_def split: if_splits sum.splits option.splits; blast)
next
  case (s_register a r m)
  from registerCall_frame [of a "mem s" r m] I9D [OF inv] s_register(2-)
  show ?thesis unfolding s_register(1) by (auto simp add: I9_def split: if_splits sum.splits option.splits; blast)
next
  case (s_reg_failed a e m)
  from call_done_frame [of a "set_Error a (Some e) (mem s)" m] I9D [OF inv] s_reg_failed(2-)
  show ?thesis unfolding s_reg_failed(1) by (auto simp add: I9_def split: if_splits sum.splits option.splits; blast)
next
  case (s_write a q m r c)
  from I9D [OF inv] s_write(2-)
  show ?thesis unfolding s_write(1) by (auto simp add: I9_def split: if_splits sum.splits option.splits; blast)
next
  case (s_remove a q e r m)
  from removeCall_frame [of q "mem s" r m] I9D [OF inv] s_remove(2-)
  show ?thesis unfolding s_remove(1) by (auto simp add: I9_def split: if_splits sum.splits option.splits; blast)
next
  case (s_done a b e m)
  from call_done_frame [of b "set_Error b (Some e) (mem s)" m] I9D [OF inv] s_done(2-)
  show ?thesis unfolding s_done(1) by (auto simp add: I9_def split: if_splits sum.splits option.splits; blast)
next
  case (s_unlock a)
  from I9D [OF inv] s_unlock(2-)
  show ?thesis unfolding s_unlock(1) by (auto simp add: I9_def split: if_splits sum.splits option.splits; blast)
next
  case (close r m)
  from Close_frame [of "mem s" r m] I9D [OF inv] close(2-)
  show ?thesis unfolding close(1) by (auto simp add: I9_def split: if_splits sum.splits option.splits; blast)
next
  case (consume ch b m)
  from chan_recv_frame [of ch "mem s" b m] I9D [OF inv] consume(2-)
  show ?thesis unfolding consume(1) by (auto simp add: I9_def split: if_splits sum.splits option.splits; blast)
qed

lemma step_inv:
  assumes st: "step s s'" and inv: "client_inv s"
  shows "client_inv s'"
  unfolding client_inv_def [of s']
  using step_I1 [OF st inv] step_I2 [OF st inv] step_I3 [OF st inv] step_I3r [OF st inv]
    step_I4 [OF st inv] step_I5 [OF st inv] step_I6 [OF st inv] step_I7 [OF st inv]
    step_I8 [OF st inv] step_I9 [OF st inv]
  by simp

lemma reachable_inv: "reachable s \<Longrightarrow> client_inv s"
  by (induction rule: reachable.induct) (simp_all add: inv_start step_inv)

lemma step_delivered:
  assumes "step s s'"
  shows "delivered s' a = delivered s a \<or> (\<exists>p. delivered s' a = delivered s a @ [p])"
  using assms by cases auto

lemma step_first_event:
  assumes "step s s'" and "client_inv s"
  shows "delivered s' a = delivered s a \<or> (delivered s a = [] \<and> (\<exists>p. delivered s' a = [p]))"
proof -
  from step_I1 [OF assms] have "length (delivered s' a) \<le> 1" by (simp add: I1_def)
  with step_delivered [OF assms(1), of a] show ?thesis by auto
qed

lemma step_absent_sender:
  assumes "step s s'" and "senders s b = S_Remove q e" and "pending (mem s) q = None"
    and "senders s' b \<noteq> senders s b"
  shows "senders s' b = S_Unlock \<and> delivered s' = delivered s"
  using assms by cases (auto simp add: removeCall_def split: if_splits)

lemma step_absent_receiver:
  assumes "step s s'" and "receiver s = R_Switch f None" and "receiver s' \<noteq> receiver s"
  shows "receiver s' = after_body (snd (cc_ReadBody f None)) \<and> delivered s' = delivered s"
  using assms by cases (auto split: if_splits)

subsection \<open>Schedules are runs of the program\<close>

lemma receiver_step_sound:
  "receiver_step ks s pc = Some s' \<Longrightarrow> receiver s = pc \<Longrightarrow> step s s'"
proof (induction ks s pc rule: receiver_step.induct)
  case (1 ks s)
  then show ?case by (auto split: prod.splits intro: step.r_header)
next
  case (2 ks s f)
  then show ?case by (auto split: prod.splits if_splits intro: step.r_remove)
next
  case (3 ks s f)
  then show ?case by (auto intro: step.r_orphan)
next
  case (4 ks s f a)
  show ?case
  proof (cases "h_Error (f_header f) = []")
    case False
    with 4 show ?thesis by (auto intro: step.r_remote_error)
  next
    case True
    obtain target err where rb: "cc_ReadBody f (Reply (calls (mem s) a)) = (target, err)"
      by (cases "cc_ReadBody f (Reply (calls (mem s) a))") simp
    show ?thesis
    proof (cases err)
      case None
      with 4 True rb show ?thesis by (auto intro: step.r_reply)
    next
      case (Some e)
      with step.r_decode_failure [OF 4(2) True, of target e] 4(1) True rb
      show ?thesis by simp
    qed
  qed
next
  case (5 ks s a err p)
  then show ?case by (auto split: option.splits intro: step.r_done)
next
  case (6 ks s e)
  then show ?case by (auto split: if_splits intro: step.r_lock_sending)
next
  case (7 ks s e)
  then show ?case by (auto split: if_splits intro: step.r_lock_mu)
next
  case (8 ks s e)
  then show ?case by (auto intro: step.r_range_end)
next
  case (9 ks s e k ks')
  then show ?case by (auto split: option.splits intro: step.r_range)
next
  case (10 ks s)
  then show ?case by (auto intro: step.r_unlock_mu)
next
  case (11 ks s)
  then show ?case by (auto intro: step.r_unlock_sending)
next
  case (12 ks s)
  then show ?case by simp
qed

lemma sender_step_sound:
  "sender_step a s pc = Some s' \<Longrightarrow> senders s a = pc \<Longrightarrow> step s s'"
proof (induction a s pc rule: sender_step.induct)
  case (1 a s)
  then show ?case by (auto split: if_splits intro: step.s_lock)
next
  case (2 a s)
  then show ?case by (auto split: prod.splits if_splits intro: step.s_register)
next
  case (3 a s e)
  then show ?case by (auto split: option.splits intro: step.s_reg_failed)
next
  case (4 a s q)
  then show ?case by (auto simp add: Let_def split: prod.splits intro: step.s_write)
next
  case (5 a s q e)
  then show ?case by (auto split: prod.splits if_splits intro: step.s_remove)
next
  case (6 a s b e)
  then show ?case by (auto split: option.splits intro: step.s_done)
next
  case (7 a s)
  then show ?case by (auto intro: step.s_unlock)
next
  case (8 a s)
  then show ?case by simp
qed

lemma act_sound: "act x s = Some s' \<Longrightarrow> step s s'"
proof (cases x)
  case (Act_Receiver ks)
  assume "act x s = Some s'"
  with Act_Receiver show ?thesis by (auto intro: receiver_step_sound)
next
  case (Act_Sender a)
  assume "act x s = Some s'"
  with Act_Sender show ?thesis by (auto intro: sender_step_sound)
next
  case Act_Close
  assume "act x s = Some s'"
  with Act_Close show ?thesis
    by (auto split: if_splits intro: step.close [of s "fst (Close (mem s))" "snd (Close (mem s))"])
next
  case (Act_Consume ch)
  assume "act x s = Some s'"
  with Act_Consume show ?thesis by (auto split: option.splits intro: step.consume)
qed

lemma run_reachable: "reachable s \<Longrightarrow> run xs s = Some s' \<Longrightarrow> reachable s'"
proof (induction xs arbitrary: s)
  case Nil
  then show ?case by simp
next
  case (Cons x xs)
  then obtain s1 where a: "act x s = Some s1" and r: "run xs s1 = Some s'"
    by (auto split: option.splits)
  from reachable.reach_step [OF Cons.prems(1) act_sound [OF a]] have "reachable s1" .
  from Cons.IH [OF this r] show ?case .
qed

lemmas race_defs = race_start_def start_def newClientCodec_def ex_state_def ex_codec_def
  ex_call_def ex_frame_def cc_ReadHeader_def cc_ReadBody_def cc_Write_def registerCall_def
  removeCall_def call_done_def set_Error_def after_body_def range_order_def Let_def

lemma run_append:
  "run (xs @ ys) s = (case run xs s of None \<Rightarrow> None | Some s' \<Rightarrow> run ys s')"
  by (induction xs arbitrary: s) (auto split: option.splits)

lemma run_snoc_step:
  "run xs s = Some s1 \<Longrightarrow> run (xs @ [x]) s = Some s2 \<Longrightarrow> step s1 s2"
  by (auto simp add: run_append split: option.splits intro: act_sound)

lemma run_a4:
  "\<exists>s. run (take 4 receiver_wins) race_start = Some s \<and>
     receiver s = R_Switch (ex_frame 1 (Inr 5)) (Some 0)"
  by (simp add: receiver_wins_def race_defs has_room_def)

lemma run_a5:
  "\<exists>s. run (take 5 receiver_wins) race_start = Some s \<and>
     receiver s = R_Switch (ex_frame 1 (Inr 5)) (Some 0)"
  by (simp add: receiver_wins_def race_defs has_room_def)

lemma run_a6:
  "\<exists>s. run (receiver_wins) race_start = Some s \<and>
     receiver s = R_Done 0 None NormalReply \<and>
     senders s 0 = S_Remove 1 (CodecError ''broken pipe'') \<and>
     pending (mem s) 1 = None \<and>
     has_room s 0 \<and>
     buf (chans (mem s) 0) = [] \<and>
     Done (calls (mem s) 0) = Some 0 \<and>
     Reply (calls (mem s) 0) = Some 5"
  by (simp add: receiver_wins_def race_defs has_room_def)

lemma run_a7:
  "\<exists>s. run (receiver_wins @ [Act_Sender 0]) race_start = Some s \<and>
     receiver s = R_Done 0 None NormalReply"
  by (simp add: receiver_wins_def race_defs has_room_def)

lemma run_a6r:
  "\<exists>s. run (receiver_wins @ [Act_Receiver []]) race_start = Some s \<and>
     receiver s = R_ReadHeader"
  by (simp add: receiver_wins_def race_defs has_room_def)

lemma run_b4:
  "\<exists>s. run (sender_wins) race_start = Some s \<and>
     senders s 0 = S_Done 0 (CodecError ''broken pipe'') \<and>
     has_room s 0 \<and>
     buf (chans (mem s) 0) = [] \<and>
     Done (calls (mem s) 0) = Some 0"
  by (simp add: sender_wins_def race_defs has_room_def)

lemma run_b5:
  "\<exists>s. run (sender_wins @ [Act_Sender 0]) race_start = Some s \<and>
     senders s 0 = S_Unlock"
  by (simp add: sender_wins_def race_defs has_room_def)

lemma run_b12:
  "\<exists>s. run (then_orphan) race_start = Some s \<and>
     receiver s = R_Switch (ex_frame 1 (Inr 5)) None \<and>
     delivered s 0 = [SendFailure]"
  by (simp add: then_orphan_def sender_wins_def race_defs has_room_def)

lemma run_b13:
  "\<exists>s. run (then_orphan @ [Act_Receiver []]) race_start = Some s \<and>
     receiver s = R_ReadHeader"
  by (simp add: then_orphan_def sender_wins_def race_defs has_room_def)

lemma run_b16:
  "\<exists>s. run (then_range) race_start = Some s \<and>
     receiver s = R_Range (CodecError ''EOF'') [2] \<and>
     pending (mem s) 2 = Some 1 \<and>
     has_room s 1 \<and>
     buf (chans (mem s) 1) = [] \<and>
     Done (calls (mem s) 1) = Some 1"
  by (simp add: then_range_def then_orphan_def sender_wins_def race_defs has_room_def)

lemma run_b17:
  "\<exists>s. run (then_range @ [Act_Receiver []]) race_start = Some s \<and>
     receiver s = R_Range (CodecError ''EOF'') []"
  by (simp add: then_range_def then_orphan_def sender_wins_def race_defs has_room_def)

lemma run_b22:
  "\<exists>s. run (then_late_sender) race_start = Some s \<and>
     senders s 2 = S_RegFailed ErrShutdown \<and>
     has_room s 2 \<and>
     buf (chans (mem s) 2) = [] \<and>
     Done (calls (mem s) 2) = Some 2 \<and>
     delivered s 1 = [BulkTermination]"
  by (simp add: then_late_sender_def then_range_def then_orphan_def sender_wins_def race_defs has_room_def)

lemma run_b23:
  "\<exists>s. run (then_late_sender @ [Act_Sender 2]) race_start = Some s \<and>
     senders s 2 = S_Unlock"
  by (simp add: then_late_sender_def then_range_def then_orphan_def sender_wins_def race_defs has_room_def)

lemma run_Some_reachable:
  "run xs race_start = Some s \<Longrightarrow> reachable s"
  using run_reachable [OF reachable.reach_start] by (simp add: race_start_def) blast

lemma race_after_eq: "run xs race_start = Some s \<Longrightarrow> race_after xs = s"
  by (simp add: race_after_def)

lemma run_full_channel:
  "\<exists>s. run full_channel shared_start = Some s \<and>
     receiver s = R_Range (CodecError ''EOF'') [2] \<and>
     sending s = Some Receiver \<and> mu s = Some Receiver \<and>
     pending (mem s) 2 = Some 1 \<and>
     delivered s 0 = [BulkTermination] \<and> delivered s 1 = [] \<and>
     Done (calls (mem s) 1) = Some 0 \<and> buf (chans (mem s) 0) = [0] \<and>
     cap (chans (mem s) 0) = 1 \<and>
     (\<forall>a. senders s a = S_Start \<or> senders s a = S_Return)"
  by (simp add: full_channel_def shared_start_def race_defs insert_commute)

lemma shared_reachable: "run xs shared_start = Some s \<Longrightarrow> reachable s"
  using run_reachable [OF reachable.reach_start] by (simp add: shared_start_def) blast

subsection \<open>Sends of completion events\<close>

lemma call_done_sends:
  "call_done a m = Some m' \<Longrightarrow>
   \<exists>ch. Done (calls m a) = Some ch \<and> length (buf (chans m ch)) < cap (chans m ch) \<and>
     m' = m\<lparr>chans := (chans m)(ch := (chans m ch)\<lparr>buf := buf (chans m ch) @ [a]\<rparr>)\<rparr>"
  by (auto simp add: call_done_def split: option.splits if_splits)

lemma step_sends_or_not:
  assumes st: "step s s'" and inv: "client_inv s"
  shows "no_send s s' \<or> (\<exists>b p. sends s s' b p)"
  using st
proof cases
  case (r_done a err p m)
  from I4G_done [OF inv r_done(2)] have d: "delivered s a = []" by simp
  from call_done_sends [OF r_done(3)] d r_done(1) have "sends s s' a p"
    by (auto simp add: sends_def)
  then show ?thesis by blast
next
  case (r_range e k ks a m)
  from I3rG [OF inv r_range(2)] r_range(3) have d: "delivered s a = []" by auto
  from call_done_sends [OF r_range(4)] d r_range(1) have "sends s s' a BulkTermination"
    by (auto simp add: sends_def set_Error_def)
  then show ?thesis by blast
next
  case (s_reg_failed a e m)
  from I5G_reg_failed [OF inv s_reg_failed(2)] have d: "delivered s a = []" by simp
  from call_done_sends [OF s_reg_failed(3)] d s_reg_failed(1)
  have "sends s s' a RegistrationFailure"
    by (auto simp add: sends_def set_Error_def)
  then show ?thesis by blast
next
  case (s_done a b e m)
  from I6G [OF inv s_done(2)] have d: "delivered s b = []" by simp
  from call_done_sends [OF s_done(3)] d s_done(1) have "sends s s' b SendFailure"
    by (auto simp add: sends_def set_Error_def)
  then show ?thesis by blast
next
  case (consume ch b m)
  then have "chans (mem s') =
      (chans (mem s))(ch := (chans (mem s) ch)\<lparr>buf := tl (buf (chans (mem s) ch))\<rparr>)"
    by (auto simp add: chan_recv_def split: list.splits)
  with consume(1) have "no_send s s'" unfolding no_send_def by auto
  then show ?thesis by blast
qed (auto simp add: no_send_def set_Error_def removeCall_def registerCall_def Close_def
      cc_Close_def split: if_splits)

lemma receiver_done_sends:
  assumes st: "step s s'" and inv: "client_inv s"
    and pc: "receiver s = R_Done a err p" and mv: "receiver s' \<noteq> receiver s"
  shows "sends s s' a p \<and> calls (mem s') = calls (mem s) \<and> receiver s' = after_body err"
  using st
proof cases
  case (r_done a' err' p' m)
  with pc have e: "a' = a" "err' = err" "p' = p" by simp_all
  from I4G_done [OF inv pc] have d: "delivered s a = []" by simp
  from call_done_sends [OF r_done(3)] d r_done(1) e show ?thesis
    by (auto simp add: sends_def)
qed (use pc mv in auto)

lemma receiver_range_sends:
  assumes st: "step s s'" and inv: "client_inv s"
    and pc: "receiver s = R_Range e (k # ks)" and pk: "pending (mem s) k = Some a"
    and mv: "receiver s' \<noteq> receiver s"
  shows "sends s s' a BulkTermination \<and>
     calls (mem s') = (calls (mem s))(a := (calls (mem s) a)\<lparr>Error := Some e\<rparr>) \<and>
     receiver s' = R_Range e ks"
  using st
proof cases
  case (r_range e' k' ks' a' m)
  with pc pk have e: "e' = e" "k' = k" "ks' = ks" "a' = a" by simp_all
  from I3rG [OF inv pc] pk have d: "delivered s a = []" by auto
  from call_done_sends [OF r_range(4)] d r_range(1) e show ?thesis
    by (auto simp add: sends_def set_Error_def)
qed (use pc mv in auto)

lemma sender_reg_failed_sends:
  assumes st: "step s s'" and inv: "client_inv s"
    and pc: "senders s a = S_RegFailed e" and mv: "senders s' a \<noteq> senders s a"
  shows "sends s s' a RegistrationFailure \<and>
     calls (mem s') = (calls (mem s))(a := (calls (mem s) a)\<lparr>Error := Some e\<rparr>) \<and>
     senders s' a = S_Unlock"
  using st
proof cases
  case (s_reg_failed a' e' m)
  with pc mv have e: "a' = a" "e' = e" by (auto split: if_splits)
  from I5G_reg_failed [OF inv pc] have d: "delivered s a = []" by simp
  from call_done_sends [OF s_reg_failed(3)] d s_reg_failed(1) e show ?thesis
    by (auto simp add: sends_def set_Error_def)
qed (use pc mv in \<open>auto split: if_splits\<close>)

lemma sender_done_sends:
  assumes st: "step s s'" and inv: "client_inv s"
    and pc: "senders s b = S_Done a e" and mv: "senders s' b \<noteq> senders s b"
  shows "sends s s' a SendFailure \<and>
     calls (mem s') = (calls (mem s))(a := (calls (mem s) a)\<lparr>Error := Some e\<rparr>) \<and>
     senders s' b = S_Unlock"
  using st
proof cases
  case (s_done b' a' e' m)
  with pc mv have e: "b' = b" "a' = a" "e' = e" by (auto split: if_splits)
  from I6G [OF inv pc] have d: "delivered s a = []" by simp
  from call_done_sends [OF s_done(3)] d s_done(1) e show ?thesis
    by (auto simp add: sends_def set_Error_def)
qed (use pc mv in \<open>auto split: if_splits\<close>)

lemma receiver_switch_sets:
  assumes st: "step s s'"
    and pc: "receiver s = R_Switch f (Some a)" and mv: "receiver s' \<noteq> receiver s"
  shows "no_send s s' \<and>
     (if h_Error (f_header f) \<noteq> []
      then calls (mem s') = (calls (mem s))(a := (calls (mem s) a)
             \<lparr>Error := Some (FmtErrorf (h_Error (f_header f)))\<rparr>) \<and>
           receiver s' = R_Done a (snd (cc_ReadBody f None)) RemoteError
      else (case snd (cc_ReadBody f (Reply (calls (mem s) a))) of
              None \<Rightarrow>
                calls (mem s') = (calls (mem s))(a := (calls (mem s) a)
                  \<lparr>Reply := fst (cc_ReadBody f (Reply (calls (mem s) a)))\<rparr>) \<and>
                receiver s' = R_Done a None NormalReply
            | Some e \<Rightarrow>
                calls (mem s') = (calls (mem s))(a := (calls (mem s) a)
                  \<lparr>Reply := fst (cc_ReadBody f (Reply (calls (mem s) a))),
                   Error := Some (ErrorsNew (''reading body '' @ error_text e))\<rparr>) \<and>
                receiver s' = R_Done a (Some e) DecodeFailure))"
  using st
  by cases (use pc mv in \<open>auto simp add: no_send_def set_Error_def\<close>)

lemma held_call_untouched:
  assumes st: "step s s'" and inv: "client_inv s"
    and h: "r_holds (receiver s) a" and same: "receiver s' = receiver s"
  shows "calls (mem s') a = calls (mem s) a"
proof -
  from I4D [OF inv] h have ne: "\<not> early (senders s a)" and nh: "\<not> s_holds (senders s a)"
    by simp_all
  show ?thesis
    using st
  proof cases
    case (s_register b r m)
    with ne have "b \<noteq> a" by auto
    with s_register show ?thesis by (auto simp add: registerCall_def split: if_splits)
  next
    case (s_reg_failed b e m)
    with ne have "b \<noteq> a" by auto
    with s_reg_failed call_done_sends [OF s_reg_failed(3)] show ?thesis
      by (auto simp add: set_Error_def)
  next
    case (s_done b c e m)
    from I6G [OF inv s_done(2)] have "b = c" by simp
    with s_done(2) nh have "c \<noteq> a" by auto
    with s_done call_done_sends [OF s_done(3)] show ?thesis by (auto simp add: set_Error_def)
  next
    case (r_done b err p m)
    with same show ?thesis by (auto simp add: after_body_def split: option.splits)
  next
    case (r_range e k ks b m)
    with h show ?thesis by simp
  next
    case (close r m)
    then show ?thesis by (auto simp add: Close_def cc_Close_def split: if_splits)
  next
    case (consume ch b m)
    then show ?thesis by (auto simp add: chan_recv_def split: list.splits)
  next
    case (r_remove f r m)
    then show ?thesis by (auto simp add: removeCall_def)
  next
    case (s_remove b q e r m)
    then show ?thesis by (auto simp add: removeCall_def)
  qed (use h same in \<open>auto simp add: set_Error_def\<close>)
qed

lemma done_sites_enabled:
  "receiver s = R_Done a err p \<Longrightarrow> has_room s a \<Longrightarrow> \<exists>s'. step s s' \<and> receiver s' \<noteq> receiver s"
  "receiver s = R_Range e (k # ks) \<Longrightarrow> pending (mem s) k = Some a \<Longrightarrow> has_room s a \<Longrightarrow>
     \<exists>s'. step s s' \<and> receiver s' \<noteq> receiver s"
  "senders s a = S_RegFailed e \<Longrightarrow> has_room s a \<Longrightarrow> \<exists>s'. step s s' \<and> senders s' a \<noteq> senders s a"
  "senders s b = S_Done a e \<Longrightarrow> has_room s a \<Longrightarrow> \<exists>s'. step s s' \<and> senders s' b \<noteq> senders s b"
proof -
  show "\<exists>s'. step s s' \<and> receiver s' \<noteq> receiver s"
    if pc: "receiver s = R_Done a err p" and r: "has_room s a"
  proof -
    from r obtain m where m: "call_done a (mem s) = Some m"
      by (auto simp add: has_room_def call_done_def split: option.splits)
    let ?s' = "s\<lparr>mem := m, delivered := (delivered s)(a := delivered s a @ [p]),
                 receiver := after_body err\<rparr>"
    have "step s ?s'" by (rule step.r_done [OF pc m])
    moreover have "receiver ?s' \<noteq> receiver s"
      using pc by (simp add: after_body_def split: option.splits)
    ultimately show ?thesis by blast
  qed
  show "\<exists>s'. step s s' \<and> receiver s' \<noteq> receiver s"
    if pc: "receiver s = R_Range e (k # ks)" and pk: "pending (mem s) k = Some a"
      and r: "has_room s a"
  proof -
    from r obtain m where m: "call_done a (set_Error a (Some e) (mem s)) = Some m"
      by (auto simp add: has_room_def call_done_def set_Error_def split: option.splits)
    let ?s' = "s\<lparr>mem := m, delivered := (delivered s)(a := delivered s a @ [BulkTermination]),
                 receiver := R_Range e ks\<rparr>"
    have "step s ?s'" by (rule step.r_range [OF pc pk m])
    moreover have "receiver ?s' \<noteq> receiver s" using pc by simp
    ultimately show ?thesis by blast
  qed
  show "\<exists>s'. step s s' \<and> senders s' a \<noteq> senders s a"
    if pc: "senders s a = S_RegFailed e" and r: "has_room s a"
  proof -
    from r obtain m where m: "call_done a (set_Error a (Some e) (mem s)) = Some m"
      by (auto simp add: has_room_def call_done_def set_Error_def split: option.splits)
    let ?s' = "s\<lparr>mem := m, delivered := (delivered s)(a := delivered s a @ [RegistrationFailure]),
                 senders := (senders s)(a := S_Unlock)\<rparr>"
    have "step s ?s'" by (rule step.s_reg_failed [OF pc m])
    moreover have "senders ?s' a \<noteq> senders s a" using pc by simp
    ultimately show ?thesis by blast
  qed
  show "\<exists>s'. step s s' \<and> senders s' b \<noteq> senders s b"
    if pc: "senders s b = S_Done a e" and r: "has_room s a"
  proof -
    from r obtain m where m: "call_done a (set_Error a (Some e) (mem s)) = Some m"
      by (auto simp add: has_room_def call_done_def set_Error_def split: option.splits)
    let ?s' = "s\<lparr>mem := m, delivered := (delivered s)(a := delivered s a @ [SendFailure]),
                 senders := (senders s)(b := S_Unlock)\<rparr>"
    have "step s ?s'" by (rule step.s_done [OF pc m])
    moreover have "senders ?s' b \<noteq> senders s b" using pc by simp
    ultimately show ?thesis by blast
  qed
qed

subsection \<open>One completion for every call\<close>

text \<open>
  Claim C1, as stated, fails: a \<^verbatim>\<open>call.done()\<close> is a blocking send, and a path that comes to
  it with the channel full delivers nothing until a caller receives. Two calls share a
  channel of capacity 1 and the connection fails: bulk termination has completed call 0
  and stands at call 1, whose channel is full. Call 1 is pending and has no completion
  event, \<^verbatim>\<open>terminateCalls\<close> holds both mutexes, so \<^verbatim>\<open>Close\<close> and every \<^verbatim>\<open>send\<close> wait as well, and
  no step of the program changes a goroutine or delivers an event: only a caller that
  receives from the channel lets it go on.
\<close>

theorem termination_waits_on_full_channel:
  "reachable (the (run full_channel shared_start)) \<and>
   receiver (the (run full_channel shared_start)) = R_Range (CodecError ''EOF'') [2] \<and>
   pending (mem (the (run full_channel shared_start))) 2 = Some 1 \<and>
   delivered (the (run full_channel shared_start)) 0 = [BulkTermination] \<and>
   delivered (the (run full_channel shared_start)) 1 = [] \<and>
   Done (calls (mem (the (run full_channel shared_start))) 1) = Some 0 \<and>
   buf (chans (mem (the (run full_channel shared_start))) 0) = [0] \<and>
   cap (chans (mem (the (run full_channel shared_start))) 0) = 1 \<and>
   \<not> has_room (the (run full_channel shared_start)) 1 \<and>
   act (Act_Receiver []) (the (run full_channel shared_start)) = None \<and>
   act (Act_Sender 2) (the (run full_channel shared_start)) = None \<and>
   act Act_Close (the (run full_channel shared_start)) = None \<and>
   \<not> (\<exists>s'. step (the (run full_channel shared_start)) s' \<and>
         (delivered s' \<noteq> delivered (the (run full_channel shared_start)) \<or>
          receiver s' \<noteq> receiver (the (run full_channel shared_start)) \<or>
          senders s' \<noteq> senders (the (run full_channel shared_start)) \<or>
          closing (mem s') \<noteq> closing (mem (the (run full_channel shared_start)))))"
proof -
  from run_full_channel obtain b where b: "run full_channel shared_start = Some b"
    and pc: "receiver b = R_Range (CodecError ''EOF'') [2]"
    and ls: "sending b = Some Receiver" and lm: "mu b = Some Receiver"
    and pk: "pending (mem b) 2 = Some 1"
    and d: "delivered b 0 = [BulkTermination]" "delivered b 1 = []"
    and ch: "Done (calls (mem b) 1) = Some 0" "buf (chans (mem b) 0) = [0]"
      "cap (chans (mem b) 0) = 1"
    and sp: "\<forall>a. senders b a = S_Start \<or> senders b a = S_Return"
    by blast
  have r: "reachable b" using b by (rule shared_reachable)
  have nr: "\<not> has_room b 1" using ch by (simp add: has_room_def)
  have blocked: "call_done 1 (set_Error 1 (Some (CodecError ''EOF'')) (mem b)) = None"
    using ch by (simp add: call_done_def set_Error_def)
  have a1: "act (Act_Receiver []) b = None" using pc pk blocked by simp
  have a2: "act (Act_Sender 2) b = None"
    using sp [rule_format, of 2] ls by auto
  have a3: "act Act_Close b = None" using lm by simp
  have stuck: "\<not> (\<exists>s'. step b s' \<and>
         (delivered s' \<noteq> delivered b \<or> receiver s' \<noteq> receiver b \<or>
          senders s' \<noteq> senders b \<or> closing (mem s') \<noteq> closing (mem b)))"
  proof
    assume "\<exists>s'. step b s' \<and>
         (delivered s' \<noteq> delivered b \<or> receiver s' \<noteq> receiver b \<or>
          senders s' \<noteq> senders b \<or> closing (mem s') \<noteq> closing (mem b))"
    then obtain s' where st: "step b s'"
      and ch': "delivered s' \<noteq> delivered b \<or> receiver s' \<noteq> receiver b \<or>
          senders s' \<noteq> senders b \<or> closing (mem s') \<noteq> closing (mem b)"
      by blast
    have ns: "senders b a \<noteq> S_Register" "senders b a \<noteq> S_RegFailed e"
      "senders b a \<noteq> S_Write q" "senders b a \<noteq> S_Remove q e"
      "senders b a \<noteq> S_Done c e" "senders b a \<noteq> S_Unlock" for a e q c
      using sp [rule_format, of a] by auto
    from st ch' show False
    proof cases
      case (r_range e k ks a m)
      with pc pk blocked show ?thesis by simp
    next
      case (s_lock a)
      with ls show ?thesis by simp
    next
      case (close r m)
      with lm show ?thesis by simp
    next
      case (consume c x m)
      with ch' show ?thesis by (auto simp add: chan_recv_def split: list.splits)
    qed (use pc ns in auto)
  qed
  from b r pc pk d ch nr a1 a2 a3 stuck show ?thesis by simp
qed

text \<open>
  Claim C1, amended. In every state that the concurrent program reaches, a call has been
  sent on its \<open>Done\<close> channel at most once, and every step either sends nothing or is the
  first send of one call on that call's \<open>Done\<close> channel. Each of the six \<^verbatim>\<open>call.done()\<close> of the
  source, when its goroutine takes the step, is such a send of its call, with the error
  that the path sets: none but the reply for a normal reply, the header's error for a
  remote error, \<^verbatim>\<open>reading body\<close> and the read error for a decode failure (both set at the
  \<^verbatim>\<open>switch\<close>, and no other goroutine touches the call that \<^verbatim>\<open>receive\<close> holds), the write error
  for a send failure, the registration error for a failed registration, and the
  termination error in bulk termination. The goroutine can take that step whenever the
  channel has a free slot; when it is full the send waits. When a failed write races the
  receiver, the goroutine that took the call out of \<open>pending\<close> is the only one at a
  \<^verbatim>\<open>call.done()\<close> for it: while \<^verbatim>\<open>send\<close> holds the call removed, or \<^verbatim>\<open>receive\<close> does, the call has no
  event, is not pending and the other goroutine does not hold it. A \<^verbatim>\<open>send\<close> whose
  \<^verbatim>\<open>removeCall\<close> finds the call absent goes to its unlock without an event, and so does
  \<^verbatim>\<open>receive\<close> for a response without a pending call.
\<close>

theorem one_completion_when_room:
  assumes "reachable s"
  shows "length (delivered s a) \<le> 1 \<and>
    (\<forall>s'. step s s' \<longrightarrow> no_send s s' \<or> (\<exists>b p. sends s s' b p)) \<and>
    (\<forall>s' err p. step s s' \<and> receiver s = R_Done a err p \<and> receiver s' \<noteq> receiver s \<longrightarrow>
       sends s s' a p \<and> calls (mem s') = calls (mem s) \<and> receiver s' = after_body err) \<and>
    (\<forall>s' e k ks. step s s' \<and> receiver s = R_Range e (k # ks) \<and> pending (mem s) k = Some a \<and>
       receiver s' \<noteq> receiver s \<longrightarrow>
       sends s s' a BulkTermination \<and>
       calls (mem s') = (calls (mem s))(a := (calls (mem s) a)\<lparr>Error := Some e\<rparr>) \<and>
       receiver s' = R_Range e ks) \<and>
    (\<forall>s' e. step s s' \<and> senders s a = S_RegFailed e \<and> senders s' a \<noteq> senders s a \<longrightarrow>
       sends s s' a RegistrationFailure \<and>
       calls (mem s') = (calls (mem s))(a := (calls (mem s) a)\<lparr>Error := Some e\<rparr>) \<and>
       senders s' a = S_Unlock) \<and>
    (\<forall>s' b e. step s s' \<and> senders s b = S_Done a e \<and> senders s' b \<noteq> senders s b \<longrightarrow>
       sends s s' a SendFailure \<and>
       calls (mem s') = (calls (mem s))(a := (calls (mem s) a)\<lparr>Error := Some e\<rparr>) \<and>
       senders s' b = S_Unlock) \<and>
    (\<forall>s' f. step s s' \<and> receiver s = R_Switch f (Some a) \<and> receiver s' \<noteq> receiver s \<longrightarrow>
       no_send s s' \<and>
       (if h_Error (f_header f) \<noteq> []
        then calls (mem s') = (calls (mem s))(a := (calls (mem s) a)
               \<lparr>Error := Some (FmtErrorf (h_Error (f_header f)))\<rparr>) \<and>
             receiver s' = R_Done a (snd (cc_ReadBody f None)) RemoteError
        else (case snd (cc_ReadBody f (Reply (calls (mem s) a))) of
                None \<Rightarrow>
                  calls (mem s') = (calls (mem s))(a := (calls (mem s) a)
                    \<lparr>Reply := fst (cc_ReadBody f (Reply (calls (mem s) a)))\<rparr>) \<and>
                  receiver s' = R_Done a None NormalReply
              | Some e \<Rightarrow>
                  calls (mem s') = (calls (mem s))(a := (calls (mem s) a)
                    \<lparr>Reply := fst (cc_ReadBody f (Reply (calls (mem s) a))),
                     Error := Some (ErrorsNew (''reading body '' @ error_text e))\<rparr>) \<and>
                  receiver s' = R_Done a (Some e) DecodeFailure))) \<and>
    (\<forall>s'. step s s' \<and> r_holds (receiver s) a \<and> receiver s' = receiver s \<longrightarrow>
       calls (mem s') a = calls (mem s) a) \<and>
    (\<forall>err p. receiver s = R_Done a err p \<and> has_room s a \<longrightarrow>
       (\<exists>s'. step s s' \<and> receiver s' \<noteq> receiver s)) \<and>
    (\<forall>e k ks. receiver s = R_Range e (k # ks) \<and> pending (mem s) k = Some a \<and> has_room s a \<longrightarrow>
       (\<exists>s'. step s s' \<and> receiver s' \<noteq> receiver s)) \<and>
    (\<forall>e. senders s a = S_RegFailed e \<and> has_room s a \<longrightarrow>
       (\<exists>s'. step s s' \<and> senders s' a \<noteq> senders s a)) \<and>
    (\<forall>b e. senders s b = S_Done a e \<and> has_room s a \<longrightarrow>
       (\<exists>s'. step s s' \<and> senders s' b \<noteq> senders s b)) \<and>
    (\<forall>b e. senders s b = S_Done a e \<longrightarrow>
       b = a \<and> delivered s a = [] \<and> (\<forall>k. pending (mem s) k \<noteq> Some a) \<and> \<not> r_holds (receiver s) a) \<and>
    (r_holds (receiver s) a \<longrightarrow>
       delivered s a = [] \<and> (\<forall>k. pending (mem s) k \<noteq> Some a) \<and>
       (\<forall>b e. senders s b \<noteq> S_Done a e) \<and> (\<forall>e. senders s a \<noteq> S_RegFailed e)) \<and>
    (\<forall>e. senders s a = S_RegFailed e \<longrightarrow>
       delivered s a = [] \<and> (\<forall>k. pending (mem s) k \<noteq> Some a)) \<and>
    (\<forall>e k ks. receiver s = R_Range e (k # ks) \<and> pending (mem s) k = Some a \<longrightarrow> delivered s a = []) \<and>
    (\<forall>s' b q e. step s s' \<and> senders s b = S_Remove q e \<and> pending (mem s) q = None \<and>
       senders s' b \<noteq> senders s b \<longrightarrow> senders s' b = S_Unlock \<and> delivered s' = delivered s) \<and>
    (\<forall>s' f. step s s' \<and> receiver s = R_Switch f None \<and> receiver s' \<noteq> receiver s \<longrightarrow>
       delivered s' = delivered s)"
proof -
  note inv = reachable_inv [OF assms]
  have 1: "length (delivered s a) \<le> 1" using I1D [OF inv] by simp
  have 2: "\<forall>s'. step s s' \<longrightarrow> no_send s s' \<or> (\<exists>b p. sends s s' b p)"
    using step_sends_or_not [OF _ inv] by blast
  have 3: "\<forall>s' err p. step s s' \<and> receiver s = R_Done a err p \<and> receiver s' \<noteq> receiver s \<longrightarrow>
       sends s s' a p \<and> calls (mem s') = calls (mem s) \<and> receiver s' = after_body err"
    using receiver_done_sends [OF _ inv] by blast
  have 4: "\<forall>s' e k ks. step s s' \<and> receiver s = R_Range e (k # ks) \<and> pending (mem s) k = Some a \<and>
       receiver s' \<noteq> receiver s \<longrightarrow>
       sends s s' a BulkTermination \<and>
       calls (mem s') = (calls (mem s))(a := (calls (mem s) a)\<lparr>Error := Some e\<rparr>) \<and>
       receiver s' = R_Range e ks"
    using receiver_range_sends [OF _ inv] by blast
  have 5: "\<forall>s' e. step s s' \<and> senders s a = S_RegFailed e \<and> senders s' a \<noteq> senders s a \<longrightarrow>
       sends s s' a RegistrationFailure \<and>
       calls (mem s') = (calls (mem s))(a := (calls (mem s) a)\<lparr>Error := Some e\<rparr>) \<and>
       senders s' a = S_Unlock"
    using sender_reg_failed_sends [OF _ inv] by blast
  have 6: "\<forall>s' b e. step s s' \<and> senders s b = S_Done a e \<and> senders s' b \<noteq> senders s b \<longrightarrow>
       sends s s' a SendFailure \<and>
       calls (mem s') = (calls (mem s))(a := (calls (mem s) a)\<lparr>Error := Some e\<rparr>) \<and>
       senders s' b = S_Unlock"
    using sender_done_sends [OF _ inv] by blast
  have 7: "\<forall>s' f. step s s' \<and> receiver s = R_Switch f (Some a) \<and> receiver s' \<noteq> receiver s \<longrightarrow>
       no_send s s' \<and>
       (if h_Error (f_header f) \<noteq> []
        then calls (mem s') = (calls (mem s))(a := (calls (mem s) a)
               \<lparr>Error := Some (FmtErrorf (h_Error (f_header f)))\<rparr>) \<and>
             receiver s' = R_Done a (snd (cc_ReadBody f None)) RemoteError
        else (case snd (cc_ReadBody f (Reply (calls (mem s) a))) of
                None \<Rightarrow>
                  calls (mem s') = (calls (mem s))(a := (calls (mem s) a)
                    \<lparr>Reply := fst (cc_ReadBody f (Reply (calls (mem s) a)))\<rparr>) \<and>
                  receiver s' = R_Done a None NormalReply
              | Some e \<Rightarrow>
                  calls (mem s') = (calls (mem s))(a := (calls (mem s) a)
                    \<lparr>Reply := fst (cc_ReadBody f (Reply (calls (mem s) a))),
                     Error := Some (ErrorsNew (''reading body '' @ error_text e))\<rparr>) \<and>
                  receiver s' = R_Done a (Some e) DecodeFailure))"
  proof (intro allI impI)
    fix s' f
    assume h: "step s s' \<and> receiver s = R_Switch f (Some a) \<and> receiver s' \<noteq> receiver s"
    then have a1: "step s s'" and a2: "receiver s = R_Switch f (Some a)"
      and a3: "receiver s' \<noteq> receiver s" by blast+
    show "no_send s s' \<and>
       (if h_Error (f_header f) \<noteq> []
        then calls (mem s') = (calls (mem s))(a := (calls (mem s) a)
               \<lparr>Error := Some (FmtErrorf (h_Error (f_header f)))\<rparr>) \<and>
             receiver s' = R_Done a (snd (cc_ReadBody f None)) RemoteError
        else (case snd (cc_ReadBody f (Reply (calls (mem s) a))) of
                None \<Rightarrow>
                  calls (mem s') = (calls (mem s))(a := (calls (mem s) a)
                    \<lparr>Reply := fst (cc_ReadBody f (Reply (calls (mem s) a)))\<rparr>) \<and>
                  receiver s' = R_Done a None NormalReply
              | Some e \<Rightarrow>
                  calls (mem s') = (calls (mem s))(a := (calls (mem s) a)
                    \<lparr>Reply := fst (cc_ReadBody f (Reply (calls (mem s) a))),
                     Error := Some (ErrorsNew (''reading body '' @ error_text e))\<rparr>) \<and>
                  receiver s' = R_Done a (Some e) DecodeFailure))"
      by (rule receiver_switch_sets [OF a1 a2 a3])
  qed
  have 8: "\<forall>s'. step s s' \<and> r_holds (receiver s) a \<and> receiver s' = receiver s \<longrightarrow>
       calls (mem s') a = calls (mem s) a"
    using held_call_untouched [OF _ inv] by blast
  have 9: "\<forall>err p. receiver s = R_Done a err p \<and> has_room s a \<longrightarrow>
       (\<exists>s'. step s s' \<and> receiver s' \<noteq> receiver s)"
    using done_sites_enabled(1) [of s a] by blast
  have 10: "\<forall>e k ks. receiver s = R_Range e (k # ks) \<and> pending (mem s) k = Some a \<and> has_room s a \<longrightarrow>
       (\<exists>s'. step s s' \<and> receiver s' \<noteq> receiver s)"
    using done_sites_enabled(2) [of s _ _ _ a] by blast
  have 11: "\<forall>e. senders s a = S_RegFailed e \<and> has_room s a \<longrightarrow>
       (\<exists>s'. step s s' \<and> senders s' a \<noteq> senders s a)"
    using done_sites_enabled(3) [of s a] by blast
  have 12: "\<forall>b e. senders s b = S_Done a e \<and> has_room s a \<longrightarrow>
       (\<exists>s'. step s s' \<and> senders s' b \<noteq> senders s b)"
    using done_sites_enabled(4) [of s _ a] by blast
  have 13: "\<forall>b e. senders s b = S_Done a e \<longrightarrow>
       b = a \<and> delivered s a = [] \<and> (\<forall>k. pending (mem s) k \<noteq> Some a) \<and> \<not> r_holds (receiver s) a"
  proof (intro allI impI)
    fix b e assume h: "senders s b = S_Done a e"
    from I6G [OF inv h] have *: "b = a" "delivered s a = []" "\<forall>k. pending (mem s) k \<noteq> Some a"
      by simp_all
    have "\<not> r_holds (receiver s) a" using I4D [OF inv] h * by auto
    with * show "b = a \<and> delivered s a = [] \<and> (\<forall>k. pending (mem s) k \<noteq> Some a) \<and> \<not> r_holds (receiver s) a"
      by simp
  qed
  have 14: "r_holds (receiver s) a \<longrightarrow>
       delivered s a = [] \<and> (\<forall>k. pending (mem s) k \<noteq> Some a) \<and>
       (\<forall>b e. senders s b \<noteq> S_Done a e) \<and> (\<forall>e. senders s a \<noteq> S_RegFailed e)"
  proof
    assume h: "r_holds (receiver s) a"
    from I4D [OF inv] h have *: "delivered s a = []" "\<forall>k. pending (mem s) k \<noteq> Some a"
      "\<not> early (senders s a)" "\<not> s_holds (senders s a)" by simp_all
    have "\<forall>b e. senders s b \<noteq> S_Done a e" using 13 h by blast
    moreover have "\<forall>e. senders s a \<noteq> S_RegFailed e" using *(3) by auto
    ultimately show "delivered s a = [] \<and> (\<forall>k. pending (mem s) k \<noteq> Some a) \<and>
       (\<forall>b e. senders s b \<noteq> S_Done a e) \<and> (\<forall>e. senders s a \<noteq> S_RegFailed e)"
      using * by simp
  qed
  have 15: "\<forall>e. senders s a = S_RegFailed e \<longrightarrow>
       delivered s a = [] \<and> (\<forall>k. pending (mem s) k \<noteq> Some a)"
    using I5G_reg_failed [OF inv] by blast
  have 16: "\<forall>e k ks. receiver s = R_Range e (k # ks) \<and> pending (mem s) k = Some a \<longrightarrow> delivered s a = []"
  proof (intro allI impI)
    fix e k ks assume h: "receiver s = R_Range e (k # ks) \<and> pending (mem s) k = Some a"
    with I3rG [OF inv, of e "k # ks"] show "delivered s a = []" by auto
  qed
  have 17: "\<forall>s' b q e. step s s' \<and> senders s b = S_Remove q e \<and> pending (mem s) q = None \<and>
       senders s' b \<noteq> senders s b \<longrightarrow> senders s' b = S_Unlock \<and> delivered s' = delivered s"
    using step_absent_sender by blast
  have 18: "\<forall>s' f. step s s' \<and> receiver s = R_Switch f None \<and> receiver s' \<noteq> receiver s \<longrightarrow>
       delivered s' = delivered s"
    using step_absent_receiver by blast
  show ?thesis
    by (rule conjI [OF 1 conjI [OF 2 conjI [OF 3 conjI [OF 4 conjI [OF 5 conjI [OF 6
        conjI [OF 7 conjI [OF 8 conjI [OF 9 conjI [OF 10 conjI [OF 11 conjI [OF 12
        conjI [OF 13 conjI [OF 14 conjI [OF 15 conjI [OF 16 conjI [OF 17 18]]]]]]]]]]]]]]]]])
qed

theorem one_completion_when_room_witness:
  "reachable (race_after (take 4 receiver_wins)) \<and>
   reachable (race_after (take 5 receiver_wins)) \<and>
   reachable (race_after (receiver_wins)) \<and>
   reachable (race_after (sender_wins)) \<and>
   reachable (race_after (then_orphan)) \<and>
   reachable (race_after (then_range)) \<and>
   reachable (race_after (then_late_sender)) \<and>
   step (race_after (take 4 receiver_wins)) (race_after (take 5 receiver_wins)) \<and>
   step (race_after (take 5 receiver_wins)) (race_after (receiver_wins)) \<and>
   step (race_after (receiver_wins)) (race_after (receiver_wins @ [Act_Sender 0])) \<and>
   step (race_after (receiver_wins)) (race_after (receiver_wins @ [Act_Receiver []])) \<and>
   step (race_after (sender_wins)) (race_after (sender_wins @ [Act_Sender 0])) \<and>
   step (race_after (then_orphan)) (race_after (then_orphan @ [Act_Receiver []])) \<and>
   step (race_after (then_range)) (race_after (then_range @ [Act_Receiver []])) \<and>
   step (race_after (then_late_sender)) (race_after (then_late_sender @ [Act_Sender 2])) \<and>
   r_holds (receiver (race_after (take 4 receiver_wins))) 0 \<and>
   receiver (race_after (take 5 receiver_wins)) = receiver (race_after (take 4 receiver_wins)) \<and>
   calls (mem (race_after (take 5 receiver_wins))) 0 = calls (mem (race_after (take 4 receiver_wins))) 0 \<and>
   receiver (race_after (take 5 receiver_wins)) = R_Switch (ex_frame 1 (Inr 5)) (Some 0) \<and>
   no_send (race_after (take 5 receiver_wins)) (race_after (receiver_wins)) \<and>
   receiver (race_after (receiver_wins)) = R_Done 0 None NormalReply \<and>
   Reply (calls (mem (race_after (receiver_wins))) 0) = Some 5 \<and>
   r_holds (receiver (race_after (receiver_wins))) 0 \<and>
   delivered (race_after (receiver_wins)) 0 = [] \<and>
   senders (race_after (receiver_wins)) 0 = S_Remove 1 (CodecError ''broken pipe'') \<and>
   pending (mem (race_after (receiver_wins))) 1 = None \<and>
   senders (race_after (receiver_wins @ [Act_Sender 0])) 0 = S_Unlock \<and>
   delivered (race_after (receiver_wins @ [Act_Sender 0])) = delivered (race_after (receiver_wins)) \<and>
   no_send (race_after (receiver_wins)) (race_after (receiver_wins @ [Act_Sender 0])) \<and>
   has_room (race_after (receiver_wins)) 0 \<and>
   (\<exists>s'. step (race_after (receiver_wins)) s' \<and> receiver s' \<noteq> receiver (race_after (receiver_wins))) \<and>
   sends (race_after (receiver_wins)) (race_after (receiver_wins @ [Act_Receiver []])) 0 NormalReply \<and>
   delivered (race_after (receiver_wins @ [Act_Receiver []])) 0 = [NormalReply] \<and>
   buf (chans (mem (race_after (receiver_wins @ [Act_Receiver []]))) 0) = [0] \<and>
   Reply (calls (mem (race_after (receiver_wins @ [Act_Receiver []]))) 0) = Some 5 \<and>
   senders (race_after (sender_wins)) 0 = S_Done 0 (CodecError ''broken pipe'') \<and>
   delivered (race_after (sender_wins)) 0 = [] \<and>
   \<not> r_holds (receiver (race_after (sender_wins))) 0 \<and>
   has_room (race_after (sender_wins)) 0 \<and>
   (\<exists>s'. step (race_after (sender_wins)) s' \<and> senders s' 0 \<noteq> senders (race_after (sender_wins)) 0) \<and>
   sends (race_after (sender_wins)) (race_after (sender_wins @ [Act_Sender 0])) 0 SendFailure \<and>
   delivered (race_after (sender_wins @ [Act_Sender 0])) 0 = [SendFailure] \<and>
   buf (chans (mem (race_after (sender_wins @ [Act_Sender 0]))) 0) = [0] \<and>
   Error (calls (mem (race_after (sender_wins @ [Act_Sender 0]))) 0) = Some (CodecError ''broken pipe'') \<and>
   receiver (race_after (then_orphan)) = R_Switch (ex_frame 1 (Inr 5)) None \<and>
   delivered (race_after (then_orphan @ [Act_Receiver []])) = delivered (race_after (then_orphan)) \<and>
   delivered (race_after (then_orphan)) 0 = [SendFailure] \<and>
   receiver (race_after (then_range)) = R_Range (CodecError ''EOF'') [2] \<and>
   pending (mem (race_after (then_range))) 2 = Some 1 \<and>
   delivered (race_after (then_range)) 1 = [] \<and>
   has_room (race_after (then_range)) 1 \<and>
   (\<exists>s'. step (race_after (then_range)) s' \<and> receiver s' \<noteq> receiver (race_after (then_range))) \<and>
   sends (race_after (then_range)) (race_after (then_range @ [Act_Receiver []])) 1 BulkTermination \<and>
   delivered (race_after (then_range @ [Act_Receiver []])) 1 = [BulkTermination] \<and>
   buf (chans (mem (race_after (then_range @ [Act_Receiver []]))) 1) = [1] \<and>
   Error (calls (mem (race_after (then_range @ [Act_Receiver []]))) 1) = Some (CodecError ''EOF'') \<and>
   senders (race_after (then_late_sender)) 2 = S_RegFailed ErrShutdown \<and>
   delivered (race_after (then_late_sender)) 2 = [] \<and>
   has_room (race_after (then_late_sender)) 2 \<and>
   (\<exists>s'. step (race_after (then_late_sender)) s' \<and> senders s' 2 \<noteq> senders (race_after (then_late_sender)) 2) \<and>
   sends (race_after (then_late_sender)) (race_after (then_late_sender @ [Act_Sender 2])) 2 RegistrationFailure \<and>
   delivered (race_after (then_late_sender @ [Act_Sender 2])) 2 = [RegistrationFailure] \<and>
   buf (chans (mem (race_after (then_late_sender @ [Act_Sender 2]))) 2) = [2] \<and>
   Error (calls (mem (race_after (then_late_sender @ [Act_Sender 2]))) 2) = Some ErrShutdown \<and>
   delivered (race_after (then_late_sender)) 1 = [BulkTermination] \<and>
   length (delivered (race_after (then_late_sender)) 1) \<le> 1"
proof -
  from run_a4 obtain a4 where a4: "run (take 4 receiver_wins) race_start = Some a4"
    "receiver a4 = R_Switch (ex_frame 1 (Inr 5)) (Some 0)"
    by blast
  note e_a4 = race_after_eq [OF a4(1)]
  have r_a4: "reachable a4" using a4(1) by (rule run_Some_reachable)
  from run_a5 obtain a5 where a5: "run (take 5 receiver_wins) race_start = Some a5"
    "receiver a5 = R_Switch (ex_frame 1 (Inr 5)) (Some 0)"
    by blast
  note e_a5 = race_after_eq [OF a5(1)]
  have r_a5: "reachable a5" using a5(1) by (rule run_Some_reachable)
  from run_a6 obtain a6 where a6: "run (receiver_wins) race_start = Some a6"
    "receiver a6 = R_Done 0 None NormalReply" "senders a6 0 = S_Remove 1 (CodecError ''broken pipe'')" "pending (mem a6) 1 = None" "has_room a6 0" "buf (chans (mem a6) 0) = []" "Done (calls (mem a6) 0) = Some 0" "Reply (calls (mem a6) 0) = Some 5"
    by blast
  note e_a6 = race_after_eq [OF a6(1)]
  have r_a6: "reachable a6" using a6(1) by (rule run_Some_reachable)
  from run_a7 obtain a7 where a7: "run (receiver_wins @ [Act_Sender 0]) race_start = Some a7"
    "receiver a7 = R_Done 0 None NormalReply"
    by blast
  note e_a7 = race_after_eq [OF a7(1)]
  have r_a7: "reachable a7" using a7(1) by (rule run_Some_reachable)
  from run_a6r obtain a6r where a6r: "run (receiver_wins @ [Act_Receiver []]) race_start = Some a6r"
    "receiver a6r = R_ReadHeader"
    by blast
  note e_a6r = race_after_eq [OF a6r(1)]
  have r_a6r: "reachable a6r" using a6r(1) by (rule run_Some_reachable)
  from run_b4 obtain b4 where b4: "run (sender_wins) race_start = Some b4"
    "senders b4 0 = S_Done 0 (CodecError ''broken pipe'')" "has_room b4 0" "buf (chans (mem b4) 0) = []" "Done (calls (mem b4) 0) = Some 0"
    by blast
  note e_b4 = race_after_eq [OF b4(1)]
  have r_b4: "reachable b4" using b4(1) by (rule run_Some_reachable)
  from run_b5 obtain b5 where b5: "run (sender_wins @ [Act_Sender 0]) race_start = Some b5"
    "senders b5 0 = S_Unlock"
    by blast
  note e_b5 = race_after_eq [OF b5(1)]
  have r_b5: "reachable b5" using b5(1) by (rule run_Some_reachable)
  from run_b12 obtain b12 where b12: "run (then_orphan) race_start = Some b12"
    "receiver b12 = R_Switch (ex_frame 1 (Inr 5)) None" "delivered b12 0 = [SendFailure]"
    by blast
  note e_b12 = race_after_eq [OF b12(1)]
  have r_b12: "reachable b12" using b12(1) by (rule run_Some_reachable)
  from run_b13 obtain b13 where b13: "run (then_orphan @ [Act_Receiver []]) race_start = Some b13"
    "receiver b13 = R_ReadHeader"
    by blast
  note e_b13 = race_after_eq [OF b13(1)]
  have r_b13: "reachable b13" using b13(1) by (rule run_Some_reachable)
  from run_b16 obtain b16 where b16: "run (then_range) race_start = Some b16"
    "receiver b16 = R_Range (CodecError ''EOF'') [2]" "pending (mem b16) 2 = Some 1" "has_room b16 1" "buf (chans (mem b16) 1) = []" "Done (calls (mem b16) 1) = Some 1"
    by blast
  note e_b16 = race_after_eq [OF b16(1)]
  have r_b16: "reachable b16" using b16(1) by (rule run_Some_reachable)
  from run_b17 obtain b17 where b17: "run (then_range @ [Act_Receiver []]) race_start = Some b17"
    "receiver b17 = R_Range (CodecError ''EOF'') []"
    by blast
  note e_b17 = race_after_eq [OF b17(1)]
  have r_b17: "reachable b17" using b17(1) by (rule run_Some_reachable)
  from run_b22 obtain b22 where b22: "run (then_late_sender) race_start = Some b22"
    "senders b22 2 = S_RegFailed ErrShutdown" "has_room b22 2" "buf (chans (mem b22) 2) = []" "Done (calls (mem b22) 2) = Some 2" "delivered b22 1 = [BulkTermination]"
    by blast
  note e_b22 = race_after_eq [OF b22(1)]
  have r_b22: "reachable b22" using b22(1) by (rule run_Some_reachable)
  from run_b23 obtain b23 where b23: "run (then_late_sender @ [Act_Sender 2]) race_start = Some b23"
    "senders b23 2 = S_Unlock"
    by blast
  note e_b23 = race_after_eq [OF b23(1)]
  have r_b23: "reachable b23" using b23(1) by (rule run_Some_reachable)
  have t45: "take 5 receiver_wins = take 4 receiver_wins @ [Act_Sender 0]"
    and t56: "receiver_wins = take 5 receiver_wins @ [Act_Receiver []]"
    by (simp_all add: receiver_wins_def)
  have st_a4_a5: "step a4 a5" using a4(1) a5(1) unfolding t45 by (rule run_snoc_step)
  have st_a5_a6: "step a5 a6"
  proof -
    from a6(1) have "run (take 5 receiver_wins @ [Act_Receiver []]) race_start = Some a6"
      using t56 by simp
    with a5(1) show ?thesis by (rule run_snoc_step)
  qed
  have st_a6_a7: "step a6 a7" using a6(1) a7(1) by (rule run_snoc_step)
  have st_a6_a6r: "step a6 a6r" using a6(1) a6r(1) by (rule run_snoc_step)
  have st_b4_b5: "step b4 b5" using b4(1) b5(1) by (rule run_snoc_step)
  have st_b12_b13: "step b12 b13" using b12(1) b13(1) by (rule run_snoc_step)
  have st_b16_b17: "step b16 b17" using b16(1) b17(1) by (rule run_snoc_step)
  have st_b22_b23: "step b22 b23" using b22(1) b23(1) by (rule run_snoc_step)
  note A4 = one_completion_when_room [OF r_a4, of 0]
  have h4: "r_holds (receiver a4) 0" using a4(2) by simp
  have s45: "receiver a5 = receiver a4" using a4(2) a5(2) by simp
  from A4 [THEN conjunct2, THEN conjunct2, THEN conjunct2, THEN conjunct2, THEN conjunct2, THEN conjunct2, THEN conjunct2, THEN conjunct1, rule_format, of a5] st_a4_a5 h4 s45
  have c45: "calls (mem a5) 0 = calls (mem a4) 0" by blast
  note A5 = one_completion_when_room [OF r_a5, of 0]
  have n56: "receiver a6 \<noteq> receiver a5" using a5(2) a6(2) by simp
  from A5 [THEN conjunct2, THEN conjunct2, THEN conjunct2, THEN conjunct2, THEN conjunct2, THEN conjunct2, THEN conjunct1, rule_format, of a6 "ex_frame 1 (Inr 5)"] st_a5_a6 a5(2) n56
  have ns56: "no_send a5 a6" by blast
  note A6 = one_completion_when_room [OF r_a6, of 0]
  have h6: "r_holds (receiver a6) 0" using a6(2) by simp
  from A6 [THEN conjunct2, THEN conjunct2, THEN conjunct2, THEN conjunct2, THEN conjunct2, THEN conjunct2, THEN conjunct2, THEN conjunct2, THEN conjunct2, THEN conjunct2, THEN conjunct2, THEN conjunct2, THEN conjunct2, THEN conjunct1] h6 have d6: "delivered a6 0 = []" by blast
  have n67: "senders a7 0 \<noteq> senders a6 0"
    using a6 a7 by (auto simp add: run_append split: option.splits if_splits prod.splits)
  from A6 [THEN conjunct2, THEN conjunct2, THEN conjunct2, THEN conjunct2, THEN conjunct2, THEN conjunct2, THEN conjunct2, THEN conjunct2, THEN conjunct2, THEN conjunct2, THEN conjunct2, THEN conjunct2, THEN conjunct2, THEN conjunct2, THEN conjunct2, THEN conjunct2, THEN conjunct1, rule_format, of a7 0 1 "CodecError ''broken pipe''"] st_a6_a7 a6(3,4) n67
  have u7: "senders a7 0 = S_Unlock" and d7: "delivered a7 = delivered a6" by blast+
  have nsd: "\<not> sends a6 a7 b p" for b p
  proof
    assume "sends a6 a7 b p"
    then have "delivered a7 b = [p]" "delivered a6 b = []"
      by (auto simp add: sends_def split: option.splits)
    with d7 show False by simp
  qed
  from A6 [THEN conjunct2, THEN conjunct1, rule_format, of a7] st_a6_a7 nsd
  have ns67: "no_send a6 a7" by blast
  from A6 [THEN conjunct2, THEN conjunct2, THEN conjunct2, THEN conjunct2, THEN conjunct2, THEN conjunct2, THEN conjunct2, THEN conjunct2, THEN conjunct1, rule_format, of None NormalReply] a6(2,5)
  have en6: "\<exists>s'. step a6 s' \<and> receiver s' \<noteq> receiver a6" by blast
  have n6r: "receiver a6r \<noteq> receiver a6" using a6(2) a6r(2) by simp
  from A6 [THEN conjunct2, THEN conjunct2, THEN conjunct1, rule_format, of a6r None NormalReply] st_a6_a6r a6(2) n6r
  have sd6: "sends a6 a6r 0 NormalReply" and cs6: "calls (mem a6r) = calls (mem a6)" by blast+
  from sd6 a6(6,7) have o6: "delivered a6r 0 = [NormalReply]" "buf (chans (mem a6r) 0) = [0]"
    by (simp_all add: sends_def)
  from cs6 a6(8) have rp6: "Reply (calls (mem a6r) 0) = Some 5" by simp
  note B4 = one_completion_when_room [OF r_b4, of 0]
  from B4 [THEN conjunct2, THEN conjunct2, THEN conjunct2, THEN conjunct2, THEN conjunct2, THEN conjunct2, THEN conjunct2, THEN conjunct2, THEN conjunct2, THEN conjunct2, THEN conjunct2, THEN conjunct2, THEN conjunct1, rule_format, of 0 "CodecError ''broken pipe''"] b4(2)
  have d4: "delivered b4 0 = []" and nh4: "\<not> r_holds (receiver b4) 0" by blast+
  from B4 [THEN conjunct2, THEN conjunct2, THEN conjunct2, THEN conjunct2, THEN conjunct2, THEN conjunct2, THEN conjunct2, THEN conjunct2, THEN conjunct2, THEN conjunct2, THEN conjunct2, THEN conjunct1, rule_format, of 0 "CodecError ''broken pipe''"] b4(2,3)
  have en4: "\<exists>s'. step b4 s' \<and> senders s' 0 \<noteq> senders b4 0" by blast
  have n45: "senders b5 0 \<noteq> senders b4 0" using b4(2) b5(2) by simp
  from B4 [THEN conjunct2, THEN conjunct2, THEN conjunct2, THEN conjunct2, THEN conjunct2, THEN conjunct1, rule_format, of b5 0 "CodecError ''broken pipe''"] st_b4_b5 b4(2) n45
  have sd4: "sends b4 b5 0 SendFailure"
    and cs4: "calls (mem b5) = (calls (mem b4))(0 := (calls (mem b4) 0)\<lparr>Error := Some (CodecError ''broken pipe'')\<rparr>)"
    by blast+
  from sd4 b4(4,5) have o4: "delivered b5 0 = [SendFailure]" "buf (chans (mem b5) 0) = [0]"
    by (simp_all add: sends_def)
  from cs4 have er4: "Error (calls (mem b5) 0) = Some (CodecError ''broken pipe'')" by simp
  note B12 = one_completion_when_room [OF r_b12, of 0]
  have n1213: "receiver b13 \<noteq> receiver b12" using b12(2) b13(2) by simp
  from B12 [THEN conjunct2, THEN conjunct2, THEN conjunct2, THEN conjunct2, THEN conjunct2, THEN conjunct2, THEN conjunct2, THEN conjunct2, THEN conjunct2, THEN conjunct2, THEN conjunct2, THEN conjunct2, THEN conjunct2, THEN conjunct2, THEN conjunct2, THEN conjunct2, THEN conjunct2, rule_format, of b13 "ex_frame 1 (Inr 5)"] st_b12_b13 b12(2) n1213
  have d13: "delivered b13 = delivered b12" by blast
  note B16 = one_completion_when_room [OF r_b16, of 1]
  from B16 [THEN conjunct2, THEN conjunct2, THEN conjunct2, THEN conjunct2, THEN conjunct2, THEN conjunct2, THEN conjunct2, THEN conjunct2, THEN conjunct2, THEN conjunct2, THEN conjunct2, THEN conjunct2, THEN conjunct2, THEN conjunct2, THEN conjunct2, THEN conjunct1, rule_format, of "CodecError ''EOF''" 2 "[]"] b16(2,3)
  have d16: "delivered b16 1 = []" by blast
  from B16 [THEN conjunct2, THEN conjunct2, THEN conjunct2, THEN conjunct2, THEN conjunct2, THEN conjunct2, THEN conjunct2, THEN conjunct2, THEN conjunct2, THEN conjunct1, rule_format, of "CodecError ''EOF''" 2 "[]"] b16(2,3,4)
  have en16: "\<exists>s'. step b16 s' \<and> receiver s' \<noteq> receiver b16" by blast
  have n1617: "receiver b17 \<noteq> receiver b16" using b16(2) b17(2) by simp
  from B16 [THEN conjunct2, THEN conjunct2, THEN conjunct2, THEN conjunct1, rule_format, of b17 "CodecError ''EOF''" 2 "[]"] st_b16_b17 b16(2,3) n1617
  have sd16: "sends b16 b17 1 BulkTermination"
    and cs16: "calls (mem b17) = (calls (mem b16))(1 := (calls (mem b16) 1)\<lparr>Error := Some (CodecError ''EOF'')\<rparr>)"
    by blast+
  from sd16 b16(5,6) have o16: "delivered b17 1 = [BulkTermination]" "buf (chans (mem b17) 1) = [1]"
    by (simp_all add: sends_def)
  from cs16 have er16: "Error (calls (mem b17) 1) = Some (CodecError ''EOF'')" by simp
  note B22 = one_completion_when_room [OF r_b22, of 2]
  from B22 [THEN conjunct2, THEN conjunct2, THEN conjunct2, THEN conjunct2, THEN conjunct2, THEN conjunct2, THEN conjunct2, THEN conjunct2, THEN conjunct2, THEN conjunct2, THEN conjunct2, THEN conjunct2, THEN conjunct2, THEN conjunct2, THEN conjunct1, rule_format, of ErrShutdown] b22(2)
  have d22: "delivered b22 2 = []" by blast
  from B22 [THEN conjunct2, THEN conjunct2, THEN conjunct2, THEN conjunct2, THEN conjunct2, THEN conjunct2, THEN conjunct2, THEN conjunct2, THEN conjunct2, THEN conjunct2, THEN conjunct1, rule_format, of ErrShutdown] b22(2,3)
  have en22: "\<exists>s'. step b22 s' \<and> senders s' 2 \<noteq> senders b22 2" by blast
  have n2223: "senders b23 2 \<noteq> senders b22 2" using b22(2) b23(2) by simp
  from B22 [THEN conjunct2, THEN conjunct2, THEN conjunct2, THEN conjunct2, THEN conjunct1, rule_format, of b23 ErrShutdown] st_b22_b23 b22(2) n2223
  have sd22: "sends b22 b23 2 RegistrationFailure"
    and cs22: "calls (mem b23) = (calls (mem b22))(2 := (calls (mem b22) 2)\<lparr>Error := Some ErrShutdown\<rparr>)"
    by blast+
  from sd22 b22(4,5) have o22: "delivered b23 2 = [RegistrationFailure]" "buf (chans (mem b23) 2) = [2]"
    by (simp_all add: sends_def)
  from cs22 have er22: "Error (calls (mem b23) 2) = Some ErrShutdown" by simp
  from one_completion_when_room [OF r_b22, of 1, THEN conjunct1] have l22: "length (delivered b22 1) \<le> 1" .
  show ?thesis
    unfolding e_a4 e_a5 e_a6 e_a7 e_a6r e_b4 e_b5 e_b12 e_b13 e_b16 e_b17 e_b22 e_b23
    using r_a4 r_a5 r_a6 r_b4 r_b12 r_b16 r_b22
      st_a4_a5 st_a5_a6 st_a6_a7 st_a6_a6r st_b4_b5 st_b12_b13 st_b16_b17 st_b22_b23
      h4 s45 c45 a5(2) ns56 a6(2) a6(8) h6 d6 a6(3) a6(4) u7 d7 ns67 a6(5) en6 sd6 o6 rp6
      b4(2) d4 nh4 b4(3) en4 sd4 o4 er4 b12(2) d13 b12(3)
      b16(2) b16(3) d16 b16(4) en16 sd16 o16 er16
      b22(2) d22 b22(3) en22 sd22 o22 er22 b22(6) l22
    by (intro conjI) assumption+
qed

end
